theory Spec2Isabelle
  imports Complex_Main "HOL-Library.Log_Nat"
begin

section \<open>The resilient fetch of the first minted artwork\<close>

text \<open>
  A shallow embedding of \<^verbatim>\<open>fetchFirstMintedArtwork\<close> and \<^verbatim>\<open>checkRateLimit\<close>
  (the retrying version of the fetch utility, with its module-level rate-limit counters).

  Conventions of the embedding:
  \<^item> JavaScript numbers that are counters and millisecond timestamps are \<open>int\<close>. A computed
    wait time is a \<open>jsnum\<close>: the exact value of a finite double, an infinity or \<open>NaN\<close>.
    What \<^verbatim>\<open>parseFloat\<close>, \<^verbatim>\<open>parseInt\<close> and the product with 1000 return is rounded to the
    nearest double, ties to even (\<open>double_of\<close>); the sign of zero is not kept.
    \<^verbatim>\<open>Math.pow(2, attempt) * 1000\<close> and \<^verbatim>\<open>* 2000\<close> are exact in doubles for every attempt up
    to 1013 and are written as the exact product.
  \<^item> The module variables \<^verbatim>\<open>requestCount\<close> and \<^verbatim>\<open>lastRequestTime\<close>, the clock read by
    \<^verbatim>\<open>Date.now()\<close> and the list of observable effects are the fields of \<open>world\<close>, threaded
    through every operation.
  \<^item> The server, the duration of a request and the duration of a timer are an \<open>env\<close>
    that every theorem quantifies over.
  \<^item> The clock is a simulated one: it moves during \<^verbatim>\<open>sleep\<close> and during a request, by the
    amounts the \<open>env\<close> gives, and stands still between two synchronous statements.
  \<^item> Each attempt issues at most one request, so the server's answers are indexed by the
    attempt.
  \<^item> \<^verbatim>\<open>throw\<close> is \<open>Inl\<close>, \<^verbatim>\<open>return\<close> is \<open>Inr\<close>; \<^verbatim>\<open>null\<close> is \<open>None\<close>.
  \<^item> Console output is not modelled.
\<close>

subsection \<open>Values\<close>

text \<open>The \<^verbatim>\<open>address\<close> argument as JavaScript may pass it: a string, or any other value.\<close>

datatype address_arg = AString string | ANonString

text \<open>\<^verbatim>\<open>!address || typeof address !== "string"\<close>: the empty string is falsy.\<close>

fun invalid_address :: "address_arg \<Rightarrow> bool" where
  "invalid_address (AString s) = (s = [])"
| "invalid_address ANonString = True"

record FirstMintedArtwork =
  downloadableUri :: string
  address :: address_arg

text \<open>
  The response envelope. Every link of
  \<^verbatim>\<open>data.profile.collectedCollectionsOrTokens.edges[0].node.media.previewImage.previewImage.downloadableUri\<close>
  may be missing (\<^verbatim>\<open>undefined\<close> or \<^verbatim>\<open>null\<close>), which is \<open>None\<close> at that link.
\<close>

datatype preview_inner = PreviewInner (uri: "string option")
datatype preview_outer = PreviewOuter (previewImage_inner: "preview_inner option")
datatype media_obj = Media (previewImage: "preview_outer option")
datatype node_obj = Node (media: "media_obj option")
datatype edge_obj = Edge (node: "node_obj option")
datatype collected_obj = Collected (edges: "edge_obj option list option")
datatype profile_obj = Profile (collectedCollectionsOrTokens: "collected_obj option")
datatype data_obj = Data (profile: "profile_obj option")
datatype body_obj = Body (data: "data_obj option")

text \<open>
  The body's \<^verbatim>\<open>detail\<close> as \<^verbatim>\<open>error.response.data?.detail\<close> reads it: nothing that counts
  (\<^verbatim>\<open>undefined\<close>, \<^verbatim>\<open>null\<close>, \<^verbatim>\<open>0\<close>, \<^verbatim>\<open>false\<close>), a string, or a truthy value that is not a
  string (a number, \<^verbatim>\<open>true\<close>, an object, an array), which has no \<^verbatim>\<open>match\<close> method.
\<close>

datatype detail_val = DetailAbsent | DetailString string | DetailOther

text \<open>
  The parts of an HTTP error response the orchestrator reads: \<^verbatim>\<open>status\<close>, the body's
  \<^verbatim>\<open>detail\<close> and the \<^verbatim>\<open>retry-after\<close> header.
\<close>

record error_response =
  status :: int
  detail :: detail_val
  retry_after :: "string option"

text \<open>An axios error: \<^verbatim>\<open>error.response\<close>, whether \<^verbatim>\<open>error.request\<close> is set, and \<^verbatim>\<open>error.code\<close>.\<close>

record axios_error =
  response :: "error_response option"
  request :: bool
  code :: "string option"

text \<open>What \<^verbatim>\<open>axios.post\<close> does: it resolves with a body (\<^verbatim>\<open>response.data\<close>) or rejects.\<close>

datatype outcome = Responded "body_obj option" | Failed axios_error

text \<open>The values the \<^verbatim>\<open>catch\<close> block can receive.\<close>

datatype caught =
    InvalidAddress       \<comment> \<open>\<^verbatim>\<open>Error("Invalid address provided")\<close>\<close>
  | AxiosErr axios_error
  | TypeErr              \<comment> \<open>reading a property of \<^verbatim>\<open>undefined\<close> or \<^verbatim>\<open>null\<close>\<close>

text \<open>The errors the function rejects with.\<close>

datatype fetch_error =
    RateLimitExceeded int
      \<comment> \<open>\<^verbatim>\<open>Rate limit exceeded after N attempts. Please try again later.\<close>\<close>
  | FailedToFetch address_arg "caught option"
      \<comment> \<open>\<^verbatim>\<open>Failed to fetch first minted artwork for address A: E\<close>; \<open>None\<close> is \<^verbatim>\<open>undefined\<close>\<close>
  | HandlerTypeError
      \<comment> \<open>the TypeError of \<^verbatim>\<open>detail.match\<close> on a value that is not a string, thrown inside
          the \<^verbatim>\<open>catch\<close> block\<close>

datatype jsnum = Num rat | PosInf | NegInf | NaN

datatype sleep_site = QuotaWait | BackoffWait

datatype event =
    Gate bool               \<comment> \<open>a call of \<^verbatim>\<open>checkRateLimit\<close> by the fetch, with its result\<close>
  | Slept sleep_site jsnum  \<comment> \<open>\<^verbatim>\<open>await sleep(ms)\<close>: at the gate, or before a retry\<close>
  | Post nat                \<comment> \<open>\<^verbatim>\<open>axios.post\<close> issued by the attempt of this index\<close>

record world =
  requestCount :: int
  lastRequestTime :: int
  clock :: int
  trace :: "event list"

record env =
  respond :: "nat \<Rightarrow> outcome"     \<comment> \<open>what the request of attempt \<open>i\<close> ends with\<close>
  latency :: "nat \<Rightarrow> int"         \<comment> \<open>how long the request of attempt \<open>i\<close> takes\<close>
  sleep_time :: "jsnum \<Rightarrow> int"    \<comment> \<open>how long \<^verbatim>\<open>sleep(ms)\<close> really takes\<close>

subsection \<open>The rate-limit gate\<close>

definition RATE_LIMIT_WINDOW :: int where
  "RATE_LIMIT_WINDOW = 60000"

definition MAX_REQUESTS_PER_WINDOW :: int where
  "MAX_REQUESTS_PER_WINDOW = 30"

definition checkRateLimit :: "world \<Rightarrow> bool \<times> world" where
  "checkRateLimit w =
     (let now = clock w;
          w1 = (if now - lastRequestTime w > RATE_LIMIT_WINDOW
                then w\<lparr>requestCount := 0, lastRequestTime := now\<rparr>
                else w)
      in if requestCount w1 \<ge> MAX_REQUESTS_PER_WINDOW then (False, w1)
         else (True, w1\<lparr>requestCount := requestCount w1 + 1\<rparr>))"

text \<open>\<open>calls n\<close>: \<open>n\<close> consecutive calls of the gate with no time passing between them.\<close>

fun calls :: "nat \<Rightarrow> world \<Rightarrow> bool list \<times> world" where
  "calls 0 w = ([], w)"
| "calls (Suc n) w =
     (case checkRateLimit w of (b, w1) \<Rightarrow>
        (case calls n w1 of (bs, w2) \<Rightarrow> (b # bs, w2)))"

subsection \<open>Reading the retry hints of a 429 response\<close>

definition is_digit :: "char \<Rightarrow> bool" where
  "is_digit c = (48 \<le> (of_char c :: nat) \<and> (of_char c :: nat) \<le> 57)"

definition digit_val :: "char \<Rightarrow> nat" where
  "digit_val c = of_char c - 48"

text \<open>The value of a string of decimal digits.\<close>

definition decimal :: "string \<Rightarrow> nat" where
  "decimal ds = foldl (\<lambda>acc c. 10 * acc + digit_val c) 0 ds"

fun strip_prefix :: "string \<Rightarrow> string \<Rightarrow> string option" where
  "strip_prefix [] s = Some s"
| "strip_prefix (p # ps) [] = None"
| "strip_prefix (p # ps) (c # cs) = (if p = c then strip_prefix ps cs else None)"

text \<open>
  The regular expression \<^verbatim>\<open>/try again after (\d+\.?\d*) seconds/\<close> tried at the start
  of \<open>s\<close>; the result is the text of group 1. The text after the group starts with a
  space, which is neither a digit nor a dot, so the only way the pattern can succeed is
  with the longest run of digits, the dot when it follows, and the longest run of digits
  after it: the greedy reading below loses no match.
\<close>

definition match_here :: "string \<Rightarrow> string option" where
  "match_here s =
     (case strip_prefix ''try again after '' s of
        None \<Rightarrow> None
      | Some r \<Rightarrow>
          (let d1 = takeWhile is_digit r; r1 = dropWhile is_digit r
           in if d1 = [] then None
              else (case r1 of
                      [] \<Rightarrow> None
                    | c # r2 \<Rightarrow>
                        if c = CHR ''.''
                        then (let d2 = takeWhile is_digit r2; r3 = dropWhile is_digit r2
                              in if strip_prefix '' seconds'' r3 = None then None
                                 else Some (d1 @ ''.'' @ d2))
                        else if strip_prefix '' seconds'' r1 = None then None
                        else Some d1)))"

text \<open>\<^verbatim>\<open>detail.match(...)\<close>: the leftmost position where the pattern matches.\<close>

fun match_detail :: "string \<Rightarrow> string option" where
  "match_detail [] = None"
| "match_detail (c # cs) =
     (case match_here (c # cs) of Some g \<Rightarrow> Some g | None \<Rightarrow> match_detail cs)"

text \<open>
  The meaning of the pattern, stated without the matcher. The text of group 1 is a
  non-empty run of digits, possibly followed by a dot and a run of digits; the pattern
  matches at the start of \<open>s\<close> with group \<open>g\<close> when \<open>s\<close> is the fixed words, \<open>g\<close>, the word
  \<^verbatim>\<open> seconds\<close> and anything; \<^verbatim>\<open>match\<close> takes the leftmost position of the string where
  the pattern matches.
\<close>

definition group_form :: "string \<Rightarrow> bool" where
  "group_form g =
     (\<exists>d1 d2. d1 \<noteq> [] \<and> (\<forall>c \<in> set d1. is_digit c) \<and> (\<forall>c \<in> set d2. is_digit c)
        \<and> (g = d1 \<or> g = d1 @ ''.'' @ d2))"

definition pattern_at :: "string \<Rightarrow> string \<Rightarrow> bool" where
  "pattern_at s g =
     (group_form g \<and> (\<exists>rest. s = ''try again after '' @ g @ '' seconds'' @ rest))"

definition leftmost_match :: "string \<Rightarrow> string \<Rightarrow> bool" where
  "leftmost_match d g =
     (\<exists>i. pattern_at (drop i d) g \<and> (\<forall>j<i. \<forall>g'. \<not> pattern_at (drop j d) g'))"

definition no_match :: "string \<Rightarrow> bool" where
  "no_match d = (\<forall>i g. \<not> pattern_at (drop i d) g)"

subsection \<open>Doubles\<close>

text \<open>
  \<open>double_of x\<close> is the double nearest to the rational \<open>x\<close>, ties to even: 53 significant
  bits, the least exponent of a subnormal (\<open>- 1074\<close>), and an infinity from \<open>2 ^ 1024\<close> on.
\<close>

definition round_half_even :: "rat \<Rightarrow> int" where
  "round_half_even y =
     (let f = \<lfloor>y\<rfloor>; d = y - of_int f
      in if d < 1 / 2 then f else if 1 / 2 < d then f + 1 else if even f then f else f + 1)"

text \<open>For \<open>0 < x\<close>, the \<open>e\<close> with \<open>2 powi e \<le> x < 2 powi (e + 1)\<close>.\<close>

definition floor_log2 :: "rat \<Rightarrow> int" where
  "floor_log2 x =
     (if 1 \<le> x then bitlen \<lfloor>x\<rfloor> - 1
      else (let y = 1 / x; k = bitlen \<lfloor>y\<rfloor> - 1 in if y = 2 powi k then - k else - k - 1))"

definition double_pos :: "rat \<Rightarrow> jsnum" where
  "double_pos x =
     (let e = floor_log2 x; q = max (e - 52) (- 1074);
          v = of_int (round_half_even (x / 2 powi q)) * 2 powi q
      in if 2 powi 1024 \<le> v then PosInf else Num v)"

definition double_of :: "rat \<Rightarrow> jsnum" where
  "double_of x =
     (if x = 0 then Num 0
      else if 0 < x then double_pos x
      else (case double_pos (- x) of Num v \<Rightarrow> Num (- v) | PosInf \<Rightarrow> NegInf | other \<Rightarrow> other))"

text \<open>\<^verbatim>\<open>x * 1000\<close> on doubles: the exact product, rounded; an infinity and \<^verbatim>\<open>NaN\<close> stay.\<close>

definition times1000 :: "jsnum \<Rightarrow> jsnum" where
  "times1000 x = (case x of Num v \<Rightarrow> double_of (v * 1000) | other \<Rightarrow> other)"

subsection \<open>\<^verbatim>\<open>parseFloat\<close> and \<^verbatim>\<open>parseInt\<close>\<close>

text \<open>The number a text of group 1 denotes: digits, then possibly a dot and digits.\<close>

definition decimal_value :: "string \<Rightarrow> rat" where
  "decimal_value g =
     (let d1 = takeWhile is_digit g; d2 = takeWhile is_digit (drop 1 (dropWhile is_digit g))
      in of_nat (decimal d1) + of_nat (decimal d2) / 10 ^ length d2)"

text \<open>\<^verbatim>\<open>parseFloat\<close> on the text of group 1: the double nearest to the number it denotes.\<close>

definition parseFloat :: "string \<Rightarrow> jsnum" where
  "parseFloat g = double_of (decimal_value g)"

text \<open>
  \<^verbatim>\<open>parseInt\<close> with no radix: leading white space, a sign, \<^verbatim>\<open>0x\<close> for hexadecimal,
  then the longest run of digits, whose value is rounded to a double; \<^verbatim>\<open>NaN\<close> when there
  is no digit.
\<close>

definition is_space :: "char \<Rightarrow> bool" where
  "is_space c = ((of_char c :: nat) \<in> {9, 10, 11, 12, 13, 32, 160})"

definition hex_val :: "char \<Rightarrow> nat option" where
  "hex_val c =
     (let n = (of_char c :: nat)
      in if 48 \<le> n \<and> n \<le> 57 then Some (n - 48)
         else if 65 \<le> n \<and> n \<le> 70 then Some (n - 55)
         else if 97 \<le> n \<and> n \<le> 102 then Some (n - 87)
         else None)"

definition parseInt :: "string \<Rightarrow> jsnum" where
  "parseInt s =
     (let s1 = dropWhile is_space s;
          neg = (take 1 s1 = ''-'');
          s2 = (if take 1 s1 = ''-'' \<or> take 1 s1 = ''+'' then drop 1 s1 else s1);
          hex = (take 2 s2 = ''0x'' \<or> take 2 s2 = ''0X'');
          s3 = (if hex then drop 2 s2 else s2);
          ds = (if hex then takeWhile (\<lambda>c. hex_val c \<noteq> None) s3 else takeWhile is_digit s3);
          v = (if hex then foldl (\<lambda>acc c. 16 * acc + the (hex_val c)) 0 ds else decimal ds)
      in if ds = [] then NaN
         else double_of (if neg then - of_nat v else of_nat v))"

text \<open>A string is truthy when it is present and not empty.\<close>

definition truthy :: "string option \<Rightarrow> bool" where
  "truthy x = (x \<noteq> None \<and> x \<noteq> Some [])"

fun detail_truthy :: "detail_val \<Rightarrow> bool" where
  "detail_truthy DetailAbsent = False"
| "detail_truthy (DetailString s) = (s \<noteq> [])"
| "detail_truthy DetailOther = True"

text \<open>
  The \<^verbatim>\<open>waitTime\<close> of the 429 branch at attempt \<open>attempt\<close>, or the TypeError of calling
  \<^verbatim>\<open>match\<close> on a truthy \<^verbatim>\<open>detail\<close> that is not a string.
\<close>

definition wait_429 :: "nat \<Rightarrow> error_response \<Rightarrow> fetch_error + jsnum" where
  "wait_429 attempt r =
     (let waitTime = Num (2 ^ attempt * 1000);
          afterDetail =
            (if detail_truthy (detail r)
             then (case detail r of
                     DetailString d \<Rightarrow>
                       (case match_detail d of
                          Some g \<Rightarrow> Inr (times1000 (parseFloat g))
                        | None \<Rightarrow> Inr waitTime)
                   | _ \<Rightarrow> Inl HandlerTypeError)
             else Inr waitTime)
      in case afterDetail of
           Inl ex \<Rightarrow> Inl ex
         | Inr waitTime1 \<Rightarrow>
             if \<not> detail_truthy (detail r) \<and> truthy (retry_after r)
             then Inr (times1000 (parseInt (the (retry_after r))))
             else Inr waitTime1)"

subsection \<open>One attempt: the body of the \<^verbatim>\<open>try\<close> block\<close>

definition log :: "event \<Rightarrow> world \<Rightarrow> world" where
  "log ev w = w\<lparr>trace := trace w @ [ev]\<rparr>"

definition sleep :: "env \<Rightarrow> sleep_site \<Rightarrow> jsnum \<Rightarrow> world \<Rightarrow> world" where
  "sleep e site ms w = log (Slept site ms) (w\<lparr>clock := clock w + sleep_time e ms\<rparr>)"

text \<open>
  The gate as the fetch goes through it: when \<^verbatim>\<open>checkRateLimit()\<close> is false, sleep for
  the rest of the window and call \<^verbatim>\<open>checkRateLimit()\<close> again, ignoring what it returns.
\<close>

definition acquire :: "env \<Rightarrow> world \<Rightarrow> world" where
  "acquire e w =
     (case checkRateLimit w of (ok, w1) \<Rightarrow>
        (let w2 = log (Gate ok) w1
         in if ok then w2
            else (let timeToWait = RATE_LIMIT_WINDOW - (clock w2 - lastRequestTime w2);
                      w3 = sleep e QuotaWait (Num (of_int timeToWait)) w2
                  in (case checkRateLimit w3 of (ok', w4) \<Rightarrow> log (Gate ok') w4))))"

definition post :: "env \<Rightarrow> nat \<Rightarrow> world \<Rightarrow> outcome \<times> world" where
  "post e attempt w =
     (respond e attempt, log (Post attempt) (w\<lparr>clock := clock w + latency e attempt\<rparr>))"

text \<open>
  Unwrapping a 2xx body. \<^verbatim>\<open>response.data?.data?.profile?.collectedCollectionsOrTokens?.edges\<close>
  reads through missing links; \<^verbatim>\<open>firstEdge.node.media\<close> does not: it throws a TypeError
  when the first edge or its node is missing.
\<close>

definition edges_of :: "body_obj option \<Rightarrow> edge_obj option list option" where
  "edges_of b =
     Option.bind (Option.bind (Option.bind (Option.bind b data) profile)
       collectedCollectionsOrTokens) edges"

definition uri_of :: "node_obj \<Rightarrow> string option" where
  "uri_of n =
     Option.bind (Option.bind (Option.bind (media n) previewImage) previewImage_inner) uri"

definition unwrap ::
  "address_arg \<Rightarrow> body_obj option \<Rightarrow> caught + FirstMintedArtwork option" where
  "unwrap a b =
     (case edges_of b of
        None \<Rightarrow> Inr None
      | Some es \<Rightarrow>
          (case es of
             [] \<Rightarrow> Inr None
           | firstEdge # _ \<Rightarrow>
               (case firstEdge of
                  None \<Rightarrow> Inl TypeErr
                | Some ed \<Rightarrow>
                    (case node ed of
                       None \<Rightarrow> Inl TypeErr
                     | Some n \<Rightarrow>
                         if \<not> truthy (uri_of n) then Inr None
                         else Inr (Some \<lparr>downloadableUri = the (uri_of n), address = a\<rparr>)))))"

definition try_body ::
  "env \<Rightarrow> address_arg \<Rightarrow> nat \<Rightarrow> world \<Rightarrow> (caught + FirstMintedArtwork option) \<times> world" where
  "try_body e a attempt w =
     (if invalid_address a then (Inl InvalidAddress, w)
      else (case post e attempt (acquire e w) of
              (Failed err, w1) \<Rightarrow> (Inl (AxiosErr err), w1)
            | (Responded b, w1) \<Rightarrow> (unwrap a b, w1)))"

subsection \<open>Classifying a failure: the \<^verbatim>\<open>catch\<close> block\<close>

datatype action =
    Retry jsnum          \<comment> \<open>\<^verbatim>\<open>await sleep(waitTime); continue\<close>\<close>
  | Throw fetch_error    \<comment> \<open>a \<^verbatim>\<open>throw\<close> inside the \<^verbatim>\<open>catch\<close> block, which leaves the function\<close>
  | Break                \<comment> \<open>\<^verbatim>\<open>break\<close>\<close>

definition backoff :: "nat \<Rightarrow> rat \<Rightarrow> jsnum" where
  "backoff attempt base = Num (2 ^ attempt * base)"

definition on_error :: "int \<Rightarrow> nat \<Rightarrow> caught \<Rightarrow> action" where
  "on_error maxRetries attempt err =
     (case err of
        AxiosErr ae \<Rightarrow>
          (case response ae of
             Some r \<Rightarrow>
               if status r = 429
               then (case wait_429 attempt r of
                       Inl ex \<Rightarrow> Throw ex
                     | Inr waitTime \<Rightarrow>
                         if int attempt < maxRetries then Retry waitTime
                         else Throw (RateLimitExceeded (maxRetries + 1)))
               else if status r = 403 \<and> int attempt < maxRetries
               then Retry (backoff attempt 2000)
               else if status r \<ge> 500 \<and> int attempt < maxRetries
               then Retry (backoff attempt 1000)
               else Break
           | None \<Rightarrow>
               if request ae
               then (if int attempt < maxRetries then Retry (backoff attempt 1000) else Break)
               else if code ae = Some ''ECONNABORTED''
               then (if int attempt < maxRetries then Retry (backoff attempt 1000) else Break)
               else Break)
      | _ \<Rightarrow> Break)"

subsection \<open>The retry loop\<close>

function fetch_loop ::
  "env \<Rightarrow> address_arg \<Rightarrow> int \<Rightarrow> nat \<Rightarrow> caught option \<Rightarrow> world
     \<Rightarrow> (fetch_error + FirstMintedArtwork option) \<times> world" where
  "fetch_loop e a maxRetries attempt lastError w =
     (if int attempt \<le> maxRetries
      then (case try_body e a attempt w of
              (Inr res, w1) \<Rightarrow> (Inr res, w1)
            | (Inl err, w1) \<Rightarrow>
                (case on_error maxRetries attempt err of
                   Retry ms \<Rightarrow>
                     fetch_loop e a maxRetries (Suc attempt) (Some err) (sleep e BackoffWait ms w1)
                 | Throw ex \<Rightarrow> (Inl ex, w1)
                 | Break \<Rightarrow> (Inl (FailedToFetch a (Some err)), w1)))
      else (Inl (FailedToFetch a lastError), w))"
  by pat_completeness auto
termination
  by (relation "measure (\<lambda>(e, a, maxRetries, attempt, lastError, w). nat (maxRetries + 1 - int attempt))")
     auto

definition fetchFirstMintedArtwork ::
  "env \<Rightarrow> address_arg \<Rightarrow> int \<Rightarrow> world \<Rightarrow> (fetch_error + FirstMintedArtwork option) \<times> world" where
  "fetchFirstMintedArtwork e a maxRetries w = fetch_loop e a maxRetries 0 None w"

text \<open>The default of the \<^verbatim>\<open>maxRetries\<close> parameter.\<close>

definition default_maxRetries :: int where
  "default_maxRetries = 3"

text \<open>
  What a run left in the trace, without the gate's own events: the requests issued and
  the waits before retries, in order.
\<close>

fun retry_event :: "event \<Rightarrow> bool" where
  "retry_event (Post i) = True"
| "retry_event (Slept BackoffWait ms) = True"
| "retry_event (Slept QuotaWait ms) = False"
| "retry_event (Gate b) = False"

definition retry_trace :: "event list \<Rightarrow> event list" where
  "retry_trace tr = filter retry_event tr"

text \<open>
  The failures the \<^verbatim>\<open>catch\<close> block retries while attempts remain: 429, 403, a status of
  500 or more, no response to a request that was made, and a timeout.
\<close>

definition retryable :: "axios_error \<Rightarrow> bool" where
  "retryable ae =
     (case response ae of
        Some r \<Rightarrow> status r = 429 \<or> status r = 403 \<or> status r \<ge> 500
      | None \<Rightarrow> request ae \<or> code ae = Some ''ECONNABORTED'')"

text \<open>A 429 whose \<^verbatim>\<open>detail\<close> is a truthy value that is not a string.\<close>

definition malformed_429 :: "axios_error \<Rightarrow> bool" where
  "malformed_429 ae =
     (case response ae of
        Some r \<Rightarrow> status r = 429 \<and> detail r = DetailOther
      | None \<Rightarrow> False)"

text \<open>What the fetch rejects with when an attempt ends in the failure \<open>ae\<close> and is not retried.\<close>

definition terminal_error :: "address_arg \<Rightarrow> int \<Rightarrow> axios_error \<Rightarrow> fetch_error" where
  "terminal_error a maxRetries ae =
     (if malformed_429 ae then HandlerTypeError
      else if (case response ae of Some r \<Rightarrow> status r = 429 | None \<Rightarrow> False)
      then RateLimitExceeded (maxRetries + 1)
      else FailedToFetch a (Some (AxiosErr ae)))"

subsection \<open>Envelopes and sample runs\<close>

text \<open>An envelope with the given \<^verbatim>\<open>edges\<close>, and an edge whose chain is complete down to the leaf.\<close>

definition envelope :: "edge_obj option list option \<Rightarrow> body_obj option" where
  "envelope es = Some (Body (Some (Data (Some (Profile (Some (Collected es)))))))"

definition edge_with_uri :: "string option \<Rightarrow> edge_obj option" where
  "edge_with_uri u =
     Some (Edge (Some (Node (Some (Media (Some (PreviewOuter (Some (PreviewInner u)))))))))"

text \<open>A timer that fires on time: after the whole milliseconds asked for, 1 at the least.\<close>

definition timer :: "jsnum \<Rightarrow> int" where
  "timer ms = (case ms of Num r \<Rightarrow> max 1 \<lfloor>r\<rfloor> | _ \<Rightarrow> 1)"

definition http_error :: "int \<Rightarrow> axios_error" where
  "http_error s =
     \<lparr>response = Some \<lparr>status = s, detail = DetailAbsent, retry_after = None\<rparr>,
      request = True, code = None\<rparr>"

text \<open>A server that fails every request with the given status.\<close>

definition failing_server :: "int \<Rightarrow> env" where
  "failing_server s =
     \<lparr>respond = (\<lambda>i. Failed (http_error s)), latency = (\<lambda>i. 120), sleep_time = timer\<rparr>"

text \<open>A server that answers every request with the given body.\<close>

definition answering_server :: "body_obj option \<Rightarrow> env" where
  "answering_server b = \<lparr>respond = (\<lambda>i. Responded b), latency = (\<lambda>i. 120), sleep_time = timer\<rparr>"

text \<open>The module state when the module has just been loaded, at some time of day.\<close>

definition fresh_world :: world where
  "fresh_world = \<lparr>requestCount = 0, lastRequestTime = 0, clock = 1000, trace = []\<rparr>"

text \<open>The module state with the quota of the current window used up.\<close>

definition exhausted_world :: world where
  "exhausted_world = \<lparr>requestCount = 30, lastRequestTime = 500, clock = 1000, trace = []\<rparr>"

text \<open>
  Some 429 responses: a hint in the body beside a header, a header only, neither, a body
  whose \<^verbatim>\<open>detail\<close> carries no hint beside a header, a header that is a date, a hint that
  is not a double, and a \<^verbatim>\<open>detail\<close> that is not a string.
\<close>

definition r_detail :: error_response where
  "r_detail =
     \<lparr>status = 429, detail = DetailString ''Rate limited, try again after 2.5 seconds'',
      retry_after = Some ''5''\<rparr>"

definition r_header :: error_response where
  "r_header = \<lparr>status = 429, detail = DetailAbsent, retry_after = Some ''5''\<rparr>"

definition r_plain :: error_response where
  "r_plain = \<lparr>status = 429, detail = DetailAbsent, retry_after = None\<rparr>"

definition r_other :: error_response where
  "r_other = \<lparr>status = 429, detail = DetailString ''slow down'', retry_after = Some ''5''\<rparr>"

definition r_date :: error_response where
  "r_date =
     \<lparr>status = 429, detail = DetailAbsent, retry_after = Some ''Wed, 21 Oct 2015 07:28:00 GMT''\<rparr>"

definition r_inexact :: error_response where
  "r_inexact =
     \<lparr>status = 429, detail = DetailString ''try again after 1.001 seconds'', retry_after = None\<rparr>"

definition r_object :: error_response where
  "r_object = \<lparr>status = 429, detail = DetailOther, retry_after = Some ''5''\<rparr>"

section \<open>Properties\<close>

subsection \<open>The rate-limit gate\<close>

lemma checkRateLimit_cases:
  "checkRateLimit v =
     (if clock v - lastRequestTime v > 60000
      then (True, v\<lparr>requestCount := 1, lastRequestTime := clock v\<rparr>)
      else if requestCount v \<ge> 30 then (False, v)
      else (True, v\<lparr>requestCount := requestCount v + 1\<rparr>))"
  by (simp add: checkRateLimit_def RATE_LIMIT_WINDOW_def MAX_REQUESTS_PER_WINDOW_def Let_def)

lemma calls_add:
  "calls (m + n) w =
     (case calls m w of (bs, w1) \<Rightarrow> (case calls n w1 of (cs, w2) \<Rightarrow> (bs @ cs, w2)))"
  by (induction m arbitrary: w) (auto split: prod.splits)

lemma calls_grant:
  "\<not> clock w - lastRequestTime w > 60000 \<Longrightarrow> requestCount w + int n \<le> 30 \<Longrightarrow>
   calls n w = (replicate n True, w\<lparr>requestCount := requestCount w + int n\<rparr>)"
proof (induction n arbitrary: w)
  case 0
  then show ?case by simp
next
  case (Suc n)
  let ?w1 = "w\<lparr>requestCount := requestCount w + 1\<rparr>"
  have step: "checkRateLimit w = (True, ?w1)"
    using Suc.prems by (simp add: checkRateLimit_cases)
  have "calls n ?w1 = (replicate n True, ?w1\<lparr>requestCount := requestCount ?w1 + int n\<rparr>)"
    using Suc.prems by (intro Suc.IH) simp_all
  with step show ?case by (simp add: add.assoc)
qed

lemma calls_31:
  assumes "requestCount w = 0 \<or> clock w - lastRequestTime w > 60000"
  shows "calls 31 w =
           (replicate 30 True @ [False],
            w\<lparr>requestCount := 30,
               lastRequestTime := (if clock w - lastRequestTime w > 60000 then clock w
                                   else lastRequestTime w)\<rparr>)"
proof -
  define w0 where
    "w0 = w\<lparr>requestCount := 0,
             lastRequestTime := (if clock w - lastRequestTime w > 60000 then clock w
                                 else lastRequestTime w)\<rparr>"
  have fresh: "\<not> clock w0 - lastRequestTime w0 > 60000" "requestCount w0 = 0"
    by (simp_all add: w0_def)
  have first: "checkRateLimit w = (True, w0\<lparr>requestCount := 1\<rparr>)"
    using assms by (auto simp: checkRateLimit_cases w0_def)
  have "calls 29 (w0\<lparr>requestCount := 1\<rparr>) =
          (replicate 29 True,
           w0\<lparr>requestCount := 1\<rparr>\<lparr>requestCount := requestCount (w0\<lparr>requestCount := 1\<rparr>) + int 29\<rparr>)"
    using fresh by (intro calls_grant) simp_all
  then have mid: "calls 29 (w0\<lparr>requestCount := 1\<rparr>) = (replicate 29 True, w0\<lparr>requestCount := 30\<rparr>)"
    by simp
  have last: "calls 1 (w0\<lparr>requestCount := 30\<rparr>) = ([False], w0\<lparr>requestCount := 30\<rparr>)"
    using fresh by (simp add: checkRateLimit_cases)
  have "calls 30 (w0\<lparr>requestCount := 1\<rparr>) = (replicate 29 True @ [False], w0\<lparr>requestCount := 30\<rparr>)"
    using calls_add [of 29 1 "w0\<lparr>requestCount := 1\<rparr>"] mid last by simp
  moreover have "calls 31 w =
      (case checkRateLimit w of (b, w1) \<Rightarrow> (case calls 30 w1 of (bs, w2) \<Rightarrow> (b # bs, w2)))"
    using calls.simps(2) [of 30 w] by simp
  ultimately have "calls 31 w = (True # replicate 29 True @ [False], w0\<lparr>requestCount := 30\<rparr>)"
    using first by simp
  moreover have "True # replicate 29 True = replicate 30 True"
    using replicate_Suc [of 29 True] by simp
  ultimately show ?thesis by (simp add: w0_def)
qed

text \<open>
  C1. A call of the gate resets the counter and the window start when more than 60000 ms
  have passed since the window start, and then grants (the counter is 1 afterwards);
  otherwise it refuses without changing anything when the counter has reached 30, and
  grants and increments the counter when it has not. So, from a state whose counter is 0
  or whose window has elapsed, 31 calls at one fixed time give 30 grants and then a
  refusal, and once the clock is more than 60000 ms past the window start the next call
  grants with the counter at 1.
\<close>

theorem checkRateLimit_quota:
  assumes "requestCount w = 0 \<or> clock w - lastRequestTime w > 60000"
    and "t - lastRequestTime (snd (calls 31 w)) > 60000"
  shows "checkRateLimit v =
           (if clock v - lastRequestTime v > 60000
            then (True, v\<lparr>requestCount := 1, lastRequestTime := clock v\<rparr>)
            else if requestCount v \<ge> 30 then (False, v)
            else (True, v\<lparr>requestCount := requestCount v + 1\<rparr>))
       \<and> fst (calls 31 w) = replicate 30 True @ [False]
       \<and> requestCount (snd (calls 31 w)) = 30
       \<and> checkRateLimit ((snd (calls 31 w))\<lparr>clock := t\<rparr>) =
           (True, (snd (calls 31 w))\<lparr>clock := t, requestCount := 1, lastRequestTime := t\<rparr>)"
proof -
  have "fst (calls 31 w) = replicate 30 True @ [False]"
    using calls_31 [OF assms(1)] by simp
  moreover have "requestCount (snd (calls 31 w)) = 30"
    using calls_31 [OF assms(1)] by simp
  moreover have "checkRateLimit ((snd (calls 31 w))\<lparr>clock := t\<rparr>) =
           (True, (snd (calls 31 w))\<lparr>clock := t, requestCount := 1, lastRequestTime := t\<rparr>)"
    using assms(2) by (simp add: checkRateLimit_cases)
  ultimately show ?thesis using checkRateLimit_cases [of v] by simp
qed

theorem checkRateLimit_quota_witness:
  "(requestCount fresh_world = 0 \<or> clock fresh_world - lastRequestTime fresh_world > 60000)
   \<and> 61001 - lastRequestTime (snd (calls 31 fresh_world)) > 60000
   \<and> fst (calls 31 fresh_world) = replicate 30 True @ [False]
   \<and> requestCount (snd (calls 31 fresh_world)) = 30
   \<and> fst (checkRateLimit ((snd (calls 31 fresh_world))\<lparr>clock := 61001\<rparr>)) = True
   \<and> requestCount (snd (checkRateLimit ((snd (calls 31 fresh_world))\<lparr>clock := 61001\<rparr>))) = 1"
proof -
  have h1: "requestCount fresh_world = 0 \<or> clock fresh_world - lastRequestTime fresh_world > 60000"
    by (simp add: fresh_world_def)
  have c: "calls 31 fresh_world = (replicate 30 True @ [False], fresh_world\<lparr>requestCount := 30\<rparr>)"
    using calls_31 [OF h1] by (simp add: fresh_world_def)
  have h2: "61001 - lastRequestTime (snd (calls 31 fresh_world)) > 60000"
    by (simp add: c) (simp add: fresh_world_def)
  show ?thesis
    using h1 h2 checkRateLimit_quota [OF h1 h2, of fresh_world] by simp
qed

text \<open>
  C10. A call of the gate changes nothing but \<^verbatim>\<open>requestCount\<close> and \<^verbatim>\<open>lastRequestTime\<close>.
  The window start changes only when the window has elapsed (it becomes the current
  time, and the call grants); a grant within the window adds one to the counter and
  keeps the window start; a refusal changes nothing at all.
\<close>

theorem checkRateLimit_frame:
  assumes "checkRateLimit w = (b, w')"
  shows "w' = w\<lparr>requestCount := requestCount w', lastRequestTime := lastRequestTime w'\<rparr>
       \<and> (lastRequestTime w' = lastRequestTime w
            \<or> (clock w - lastRequestTime w > 60000 \<and> lastRequestTime w' = clock w \<and> b))
       \<and> (if clock w - lastRequestTime w > 60000
           then b \<and> requestCount w' = 1 \<and> lastRequestTime w' = clock w
           else if b
           then requestCount w' = requestCount w + 1 \<and> lastRequestTime w' = lastRequestTime w
           else w' = w)"
  using assms by (auto simp: checkRateLimit_cases split: if_splits)

theorem checkRateLimit_frame_witness:
  "checkRateLimit exhausted_world = (False, exhausted_world)
   \<and> checkRateLimit fresh_world = (True, fresh_world\<lparr>requestCount := 1\<rparr>)
   \<and> lastRequestTime (fresh_world\<lparr>requestCount := 1\<rparr>) = lastRequestTime fresh_world
   \<and> clock (fresh_world\<lparr>requestCount := 1\<rparr>) = clock fresh_world"
proof -
  have h1: "checkRateLimit exhausted_world = (False, exhausted_world)"
    by (simp add: checkRateLimit_cases exhausted_world_def)
  have h2: "checkRateLimit fresh_world = (True, fresh_world\<lparr>requestCount := 1\<rparr>)"
    by (simp add: checkRateLimit_cases fresh_world_def)
  show ?thesis
    using h1 h2 checkRateLimit_frame [OF h1] checkRateLimit_frame [OF h2] by simp
qed

subsection \<open>Rounding to a double\<close>

lemma bitlen_floor_bounds:
  fixes y :: rat
  assumes "1 \<le> y"
  shows "2 powi (bitlen \<lfloor>y\<rfloor> - 1) \<le> y" and "y < 2 powi (bitlen \<lfloor>y\<rfloor>)" and "1 \<le> bitlen \<lfloor>y\<rfloor>"
proof -
  let ?n = "\<lfloor>y\<rfloor>"
  have n: "0 < ?n" using assms by simp
  have b: "2 ^ nat (bitlen ?n - 1) \<le> ?n" "?n < 2 ^ nat (bitlen ?n)"
    using bitlen_bounds [OF n] by simp_all
  show b1: "1 \<le> bitlen ?n"
    using n bitlen_eq_zero_iff [of ?n] bitlen_nonneg [of ?n] by linarith
  have "(2::rat) powi (bitlen ?n - 1) = of_int (2 ^ nat (bitlen ?n - 1))"
    using b1 by (simp add: power_int_nonneg_exp)
  also have "\<dots> \<le> of_int ?n" using b(1) by (simp only: of_int_le_iff)
  also have "\<dots> \<le> y" by simp
  finally show "2 powi (bitlen ?n - 1) \<le> y" .
  have "?n + 1 \<le> 2 ^ nat (bitlen ?n)" using b(2) by simp
  then have "(of_int (?n + 1) :: rat) \<le> of_int (2 ^ nat (bitlen ?n))"
    by (simp only: of_int_le_iff)
  moreover have "y < of_int (?n + 1)" by linarith
  moreover have "(2::rat) powi (bitlen ?n) = of_int (2 ^ nat (bitlen ?n))"
    using b1 by (simp add: power_int_nonneg_exp)
  ultimately show "y < 2 powi (bitlen ?n)" by linarith
qed

lemma floor_log2_bounds:
  assumes "0 < x"
  shows "2 powi (floor_log2 x) \<le> x \<and> x < 2 powi (floor_log2 x + 1)"
proof (cases "1 \<le> x")
  case True
  then show ?thesis
    using bitlen_floor_bounds [OF True] by (simp add: floor_log2_def)
next
  case False
  define y where "y = 1 / x"
  define k where "k = bitlen \<lfloor>y\<rfloor> - 1"
  have y1: "1 \<le> y" using assms False by (simp add: y_def)
  have x: "x = 1 / y" by (simp add: y_def)
  have lo: "2 powi k \<le> y" and hi: "y < 2 powi (k + 1)"
    using bitlen_floor_bounds [OF y1] by (simp_all add: k_def)
  have p: "(0::rat) < 2 powi k" "(0::rat) < 2 powi (k + 1)" by simp_all
  show ?thesis
  proof (cases "y = 2 powi k")
    case True
    then have e: "floor_log2 x = - k"
      using False by (simp add: floor_log2_def y_def k_def Let_def)
    have "x = 2 powi (- k)" using True x by (simp add: power_int_minus_divide)
    moreover have "(2::rat) powi (- k) < 2 powi (- k + 1)"
      by (rule power_int_strict_increasing) simp_all
    ultimately show ?thesis using e by simp
  next
    case neq: False
    then have e: "floor_log2 x = - k - 1"
      using False by (simp add: floor_log2_def y_def k_def Let_def)
    have "2 powi k < y" using lo neq by simp
    then have "1 / y < 1 / 2 powi k"
      using p y1 by (intro divide_strict_left_mono) simp_all
    then have "x < 1 / 2 powi k" using x by simp
    then have u: "x < 2 powi (- k)" by (simp add: power_int_minus_divide)
    have "0 < y" using y1 by simp
    then have "1 / 2 powi (k + 1) < 1 / y"
      using hi p by (intro divide_strict_left_mono) simp_all
    then have "1 / 2 powi (k + 1) < x" using x by simp
    moreover have "(2::rat) powi (- k - 1) = 1 / 2 powi (k + 1)"
      using power_int_minus_divide [of "2::rat" "k + 1"] by (simp only: minus_add_distrib diff_conv_add_uminus)
    ultimately have l: "2 powi (- k - 1) \<le> x" by simp
    show ?thesis using e u l by simp
  qed
qed

lemma powi_less_imp:
  assumes "(2::rat) powi a < 2 powi b"
  shows "a < b"
proof (rule ccontr)
  assume "\<not> a < b"
  then have "b \<le> a" by simp
  then have "(2::rat) powi b \<le> 2 powi a" by (intro power_int_increasing) simp_all
  then show False using assms by simp
qed

lemma floor_log2_unique:
  assumes "2 powi e \<le> x" and "x < 2 powi (e + 1)"
  shows "floor_log2 x = e"
proof -
  have x: "0 < x" using assms(1) zero_less_power_int [of "2::rat" e] by linarith
  let ?f = "floor_log2 x"
  have b: "2 powi ?f \<le> x" "x < 2 powi (?f + 1)" using floor_log2_bounds [OF x] by simp_all
  have "(2::rat) powi e < 2 powi (?f + 1)" using assms(1) b(2) by linarith
  then have "e < ?f + 1" by (rule powi_less_imp)
  moreover have "(2::rat) powi ?f < 2 powi (e + 1)" using assms(2) b(1) by linarith
  then have "?f < e + 1" by (rule powi_less_imp)
  ultimately show ?thesis by simp
qed

lemma round_half_even_near:
  assumes "\<bar>y - of_int m\<bar> < 1 / 2"
  shows "round_half_even y = m"
proof -
  have lo: "of_int m - 1 / 2 < y" and hi: "y < of_int m + 1 / 2" using assms by linarith+
  show ?thesis
  proof (cases "of_int m \<le> y")
    case True
    then have f: "\<lfloor>y\<rfloor> = m" using hi by (intro floor_unique) linarith+
    then show ?thesis using hi by (simp add: round_half_even_def Let_def)
  next
    case False
    then have f: "\<lfloor>y\<rfloor> = m - 1" using lo by (intro floor_unique) (simp, linarith)+
    then show ?thesis using lo False by (simp add: round_half_even_def Let_def)
  qed
qed

lemma round_half_even_tie:
  assumes "y = of_int f + 1 / 2"
  shows "round_half_even y = (if even f then f else f + 1)"
proof -
  have "\<lfloor>y\<rfloor> = f" using assms by (intro floor_unique) simp_all
  then show ?thesis using assms by (simp add: round_half_even_def Let_def)
qed

lemma double_pos_cert:
  assumes "2 powi e \<le> x" and "x < 2 powi (e + 1)"
    and "q = max (e - 52) (- 1074)"
    and "round_half_even (x / 2 powi q) = m"
  shows "double_pos x = (if (2::rat) powi 1024 \<le> of_int m * 2 powi q then PosInf
                         else Num (of_int m * 2 powi q))"
  using floor_log2_unique [OF assms(1,2)] assms(3,4)
  by (simp add: double_pos_def Let_def)

lemma double_of_dyadic:
  assumes "0 < m" and "m < 2 ^ 53" and "- 1074 \<le> q" and "of_int m * 2 powi q < (2::rat) powi 1024"
  shows "double_of (of_int m * 2 powi q) = Num (of_int m * 2 powi q)"
proof -
  let ?x = "of_int m * 2 powi q :: rat"
  let ?b = "bitlen m"
  have b: "2 ^ nat (?b - 1) \<le> m" "m < 2 ^ nat ?b" using bitlen_bounds [OF assms(1)] by simp_all
  have b1: "1 \<le> ?b" using assms(1) bitlen_eq_zero_iff [of m] bitlen_nonneg [of m] by linarith
  have lt: "(2::int) ^ nat (?b - 1) < 2 ^ 53" using b(1) assms(2) by linarith
  have "nat (?b - 1) < 53" by (rule power_less_imp_less_exp [OF _ lt]) simp
  then have b53: "?b \<le> 53" by linarith
  have x0: "0 < ?x" using assms(1) by simp
  have "(2::rat) powi (?b - 1) = of_int (2 ^ nat (?b - 1))"
    using b1 by (simp add: power_int_nonneg_exp)
  also have "\<dots> \<le> of_int m" using b(1) by (simp only: of_int_le_iff)
  finally have "2 powi (?b - 1) * 2 powi q \<le> ?x" by (simp add: mult_right_mono)
  then have lo: "2 powi (?b - 1 + q) \<le> ?x" by (simp add: power_int_add)
  have "(of_int m :: rat) < of_int (2 ^ nat ?b)" using b(2) by (simp only: of_int_less_iff)
  also have "\<dots> = 2 powi ?b" using b1 by (simp add: power_int_nonneg_exp)
  finally have "?x < 2 powi ?b * 2 powi q" by (simp add: mult_strict_right_mono)
  then have hi: "?x < 2 powi (?b - 1 + q + 1)" by (simp add: power_int_add)
  define q' where "q' = max (?b - 1 + q - 52) (- 1074)"
  have q': "q' \<le> q" using b53 assms(3) by (simp add: q'_def)
  have "?x / 2 powi q' = of_int m * 2 powi (q - q')"
    by (simp add: power_int_diff)
  also have "\<dots> = of_int (m * 2 ^ nat (q - q'))"
    using q' by (simp add: power_int_nonneg_exp)
  finally have y: "?x / 2 powi q' = of_int (m * 2 ^ nat (q - q'))" .
  have r: "round_half_even (?x / 2 powi q') = m * 2 ^ nat (q - q')"
    unfolding y by (rule round_half_even_near) simp
  have v: "of_int (m * 2 ^ nat (q - q')) * 2 powi q' = ?x"
    using y by (metis nonzero_divide_eq_eq power_int_not_zero zero_neq_numeral)
  have "double_pos ?x = (if 2 powi 1024 \<le> ?x then PosInf else Num ?x)"
    using double_pos_cert [OF lo hi q'_def r] by (simp only: v)
  then show ?thesis using x0 assms(4) by (simp add: double_of_def)
qed

lemma double_of_nat_exact:
  assumes "n < 2 ^ 53"
  shows "double_of (of_nat n) = Num (of_nat n)"
proof (cases "n = 0")
  case True
  then show ?thesis by (simp add: double_of_def)
next
  case False
  have "int n < 2 ^ 53" using assms by (metis of_nat_less_iff of_nat_numeral of_nat_power)
  moreover have "(of_int (int n) :: rat) * 2 powi 0 < 2 powi 1024"
  proof -
    have "(of_int (int n) :: rat) < of_int (2 ^ 53)" using \<open>int n < 2 ^ 53\<close> by (simp only: of_int_less_iff)
    also have "\<dots> \<le> 2 powi 1024" by simp
    finally show ?thesis by simp
  qed
  ultimately show ?thesis
    using double_of_dyadic [of "int n" 0] False by simp
qed

lemma double_pos_overflow:
  assumes "2 powi 1024 \<le> x"
  shows "double_pos x = PosInf"
proof -
  have x0: "0 < x" using assms zero_less_power_int [of "2::rat" 1024] by linarith
  define e where "e = floor_log2 x"
  define q where "q = max (e - 52) (- 1074)"
  have b: "2 powi e \<le> x" "x < 2 powi (e + 1)" using floor_log2_bounds [OF x0] by (simp_all add: e_def)
  have "(2::rat) powi 1024 < 2 powi (e + 1)" using assms b(2) by linarith
  then have e: "1024 \<le> e" using powi_less_imp by fastforce
  then have q: "q = e - 52" by (simp add: q_def)
  have pe: "(2::rat) powi e = 2 powi 52 * 2 powi q"
    unfolding q using power_int_add [of "2::rat" 52 "e - 52"] by simp
  have "2 powi 52 \<le> x / 2 powi q"
    using b(1) by (simp only: pe pos_le_divide_eq zero_less_power_int zero_less_numeral)
  moreover have "(2::rat) powi 52 = of_int (2 ^ 52)" by simp
  ultimately have "of_int (2 ^ 52) \<le> x / 2 powi q" by (simp only:)
  then have "2 ^ 52 \<le> \<lfloor>x / 2 powi q\<rfloor>" by (simp only: le_floor_iff)
  moreover have "\<lfloor>x / 2 powi q\<rfloor> \<le> round_half_even (x / 2 powi q)"
    by (simp add: round_half_even_def Let_def)
  ultimately have "2 ^ 52 \<le> round_half_even (x / 2 powi q)" by linarith
  then have "(of_int (2 ^ 52) :: rat) \<le> of_int (round_half_even (x / 2 powi q))"
    by (simp only: of_int_le_iff)
  then have "(of_int (2 ^ 52) :: rat) * 2 powi q
      \<le> of_int (round_half_even (x / 2 powi q)) * 2 powi q"
    by (intro mult_right_mono) simp_all
  moreover have "(of_int (2 ^ 52) :: rat) * 2 powi q = 2 powi e" using pe by simp
  moreover have "(2::rat) powi 1024 \<le> 2 powi e" using e by (intro power_int_increasing) simp_all
  ultimately have "(2::rat) powi 1024 \<le> of_int (round_half_even (x / 2 powi q)) * 2 powi q"
    by linarith
  then show ?thesis by (simp add: double_pos_def Let_def e_def [symmetric] q_def [symmetric])
qed


lemma round_half_even_error: "\<bar>y - of_int (round_half_even y)\<bar> \<le> 1 / 2"
proof -
  have "of_int \<lfloor>y\<rfloor> \<le> y" "y < of_int \<lfloor>y\<rfloor> + 1" by linarith+
  then show ?thesis by (auto simp: round_half_even_def Let_def)
qed

text \<open>The result of \<open>double_pos\<close> is a multiple of the unit in the last place, at most half
  a unit away.\<close>

lemma double_pos_nearest:
  assumes "double_pos x = Num v" and "q = max (floor_log2 x - 52) (- 1074)"
  shows "\<exists>m. v = of_int m * 2 powi q \<and> \<bar>x - v\<bar> \<le> 2 powi q / 2"
proof -
  let ?m = "round_half_even (x / 2 powi q)"
  have v: "v = of_int ?m * 2 powi q"
    using assms by (simp add: double_pos_def Let_def split: if_splits)
  have p: "(0::rat) < 2 powi q" by simp
  have "\<bar>x / 2 powi q - of_int ?m\<bar> \<le> 1 / 2" by (rule round_half_even_error)
  then have "\<bar>x / 2 powi q - of_int ?m\<bar> * 2 powi q \<le> 1 / 2 * 2 powi q"
    using p by (intro mult_right_mono) simp_all
  moreover have "\<bar>x / 2 powi q - of_int ?m\<bar> * 2 powi q = \<bar>x - of_int ?m * 2 powi q\<bar>"
  proof -
    have "\<bar>x / 2 powi q - of_int ?m\<bar> * 2 powi q = \<bar>(x / 2 powi q - of_int ?m) * 2 powi q\<bar>"
      using p by (simp add: abs_mult)
    also have "(x / 2 powi q - of_int ?m) * 2 powi q = x - of_int ?m * 2 powi q"
      using p by (simp add: field_simps)
    finally show ?thesis .
  qed
  ultimately show ?thesis using v by auto
qed

lemma times1000_exact:
  "double_of (v * 1000) = Num (v * 1000) \<Longrightarrow> times1000 (Num v) = Num (v * 1000)"
  by (simp add: times1000_def)

subsection \<open>What \<^verbatim>\<open>parseInt\<close> returns\<close>

lemma digit_not_space: "is_digit c \<Longrightarrow> \<not> is_space c"
  by (auto simp: is_digit_def is_space_def)

lemma digit_not_sign: "is_digit c \<Longrightarrow> c \<noteq> CHR ''-'' \<and> c \<noteq> CHR ''+'' \<and> c \<noteq> CHR ''x'' \<and> c \<noteq> CHR ''X''"
  by (auto simp: is_digit_def)

lemma parseInt_digits:
  assumes "ds \<noteq> []" and "\<forall>c \<in> set ds. is_digit c"
  shows "parseInt ds = double_of (of_nat (decimal ds))"
proof -
  obtain c cs where ds: "ds = c # cs" using assms(1) by (cases ds) auto
  have c: "is_digit c" using assms(2) ds by simp
  have s1: "dropWhile is_space ds = ds" using c digit_not_space ds by simp
  have sg: "take 1 ds \<noteq> ''-''" "take 1 ds \<noteq> ''+''" using c digit_not_sign ds by auto
  have hx: "take 2 ds \<noteq> ''0x''" "take 2 ds \<noteq> ''0X''"
  proof -
    show "take 2 ds \<noteq> ''0x''"
    proof
      assume "take 2 ds = ''0x''"
      then obtain r where "ds = CHR ''0'' # CHR ''x'' # r"
        using ds by (cases cs) auto
      then have "is_digit CHR ''x''" using assms(2) by simp
      then show False by (simp add: is_digit_def)
    qed
    show "take 2 ds \<noteq> ''0X''"
    proof
      assume "take 2 ds = ''0X''"
      then obtain r where "ds = CHR ''0'' # CHR ''X'' # r"
        using ds by (cases cs) auto
      then have "is_digit CHR ''X''" using assms(2) by simp
      then show False by (simp add: is_digit_def)
    qed
  qed
  have tw: "takeWhile is_digit ds = ds" using assms(2) by (simp add: takeWhile_eq_all_conv)
  show ?thesis
    by (simp only: parseInt_def Let_def s1 sg hx tw assms(1) simp_thms if_False if_True)
qed

lemma parseInt_no_integer:
  assumes "\<not> is_space c" and "c \<noteq> CHR ''-''" and "c \<noteq> CHR ''+''" and "\<not> is_digit c"
  shows "parseInt (c # cs) = NaN"
proof -
  have s1: "dropWhile is_space (c # cs) = c # cs" using assms(1) by simp
  have sg: "take 1 (c # cs) \<noteq> ''-''" "take 1 (c # cs) \<noteq> ''+''" using assms(2,3) by simp_all
  have z: "c \<noteq> CHR ''0''" using assms(4) by (auto simp: is_digit_def)
  have hx: "take 2 (c # cs) \<noteq> ''0x''" "take 2 (c # cs) \<noteq> ''0X''" using z by (cases cs; simp)+
  have tw: "takeWhile is_digit (c # cs) = []" using assms(4) by simp
  show ?thesis
    by (simp only: parseInt_def Let_def s1 sg hx tw simp_thms if_False if_True)
qed

subsection \<open>The matcher and the pattern\<close>

lemma strip_prefix_Some: "strip_prefix p s = Some r \<Longrightarrow> s = p @ r"
  by (induction p s rule: strip_prefix.induct) (auto split: if_splits)

lemma strip_prefix_append: "strip_prefix p (p @ r) = Some r"
  by (induction p) auto

lemma not_digit_space: "\<not> is_digit CHR '' ''" and not_digit_dot: "\<not> is_digit CHR ''.''"
  by (simp_all add: is_digit_def)

lemma takeWhile_run:
  "(\<forall>c \<in> set ds. P c) \<Longrightarrow> \<not> P x \<Longrightarrow> takeWhile P (ds @ x # xs) = ds"
  by (induction ds) auto

lemma dropWhile_run:
  "(\<forall>c \<in> set ds. P c) \<Longrightarrow> \<not> P x \<Longrightarrow> dropWhile P (ds @ x # xs) = x # xs"
  by (induction ds) auto

lemma match_here_complete:
  assumes "pattern_at s g"
  shows "match_here s = Some g"
proof -
  obtain d1 d2 rest where d1: "d1 \<noteq> []" "\<forall>c \<in> set d1. is_digit c" and d2: "\<forall>c \<in> set d2. is_digit c"
    and g: "g = d1 \<or> g = d1 @ ''.'' @ d2"
    and s: "s = ''try again after '' @ g @ '' seconds'' @ rest"
    using assms by (auto simp: pattern_at_def group_form_def)
  have sp: "strip_prefix ''try again after '' s = Some (g @ '' seconds'' @ rest)"
    unfolding s by (rule strip_prefix_append)
  from g show ?thesis
  proof
    assume g1: "g = d1"
    have t: "takeWhile is_digit (d1 @ CHR '' '' # ''seconds'' @ rest) = d1"
      using d1(2) not_digit_space by (rule takeWhile_run)
    have d: "dropWhile is_digit (d1 @ CHR '' '' # ''seconds'' @ rest) = CHR '' '' # ''seconds'' @ rest"
      using d1(2) not_digit_space by (rule dropWhile_run)
    have "strip_prefix '' seconds'' (CHR '' '' # ''seconds'' @ rest) = Some rest"
      using strip_prefix_append [of "'' seconds''" rest] by simp
    then show ?thesis
      using sp d1(1) t d unfolding match_here_def g1 by (simp add: Let_def)
  next
    assume g2: "g = d1 @ ''.'' @ d2"
    let ?r2 = "d2 @ CHR '' '' # ''seconds'' @ rest"
    have t: "takeWhile is_digit (d1 @ CHR ''.'' # ?r2) = d1"
      using d1(2) not_digit_dot by (rule takeWhile_run)
    have d: "dropWhile is_digit (d1 @ CHR ''.'' # ?r2) = CHR ''.'' # ?r2"
      using d1(2) not_digit_dot by (rule dropWhile_run)
    have t2: "takeWhile is_digit ?r2 = d2"
      using d2 not_digit_space by (rule takeWhile_run)
    have dd: "dropWhile is_digit ?r2 = CHR '' '' # ''seconds'' @ rest"
      using d2 not_digit_space by (rule dropWhile_run)
    have "strip_prefix '' seconds'' (CHR '' '' # ''seconds'' @ rest) = Some rest"
      using strip_prefix_append [of "'' seconds''" rest] by simp
    then show ?thesis
      using sp d1(1) t d t2 dd unfolding match_here_def g2 by (simp add: Let_def)
  qed
qed

lemma match_here_sound:
  assumes "match_here s = Some g"
  shows "pattern_at s g"
proof -
  obtain r where r: "strip_prefix ''try again after '' s = Some r"
    using assms by (auto simp: match_here_def split: option.splits)
  have s: "s = ''try again after '' @ r" using strip_prefix_Some [OF r] .
  have td: "r = takeWhile is_digit r @ dropWhile is_digit r" by simp
  have ne: "takeWhile is_digit r \<noteq> []"
    using assms r by (auto simp: match_here_def Let_def split: if_splits)
  have dg: "\<forall>c \<in> set (takeWhile is_digit r). is_digit c"
    by (auto dest: set_takeWhileD)
  show ?thesis
  proof (cases "dropWhile is_digit r")
    case Nil
    then show ?thesis using assms r
      by (simp add: match_here_def Let_def del: dropWhile_eq_Nil_conv split: if_splits)
  next
    case (Cons c r2)
    show ?thesis
    proof (cases "c = CHR ''.''")
      case True
      then obtain rest where p: "strip_prefix '' seconds'' (dropWhile is_digit r2) = Some rest"
        and g: "g = takeWhile is_digit r @ ''.'' @ takeWhile is_digit r2"
        using assms r Cons by (auto simp: match_here_def Let_def split: if_splits)
      have "r2 = takeWhile is_digit r2 @ dropWhile is_digit r2" by simp
      then have "r2 = takeWhile is_digit r2 @ '' seconds'' @ rest"
        using strip_prefix_Some [OF p] by simp
      then have "r = g @ '' seconds'' @ rest"
        using td Cons True g by (metis append.assoc append_Cons append_Nil)
      moreover have "group_form g"
        unfolding group_form_def using ne dg g
        by (intro exI [of _ "takeWhile is_digit r"] exI [of _ "takeWhile is_digit r2"])
           (auto dest: set_takeWhileD)
      ultimately show ?thesis using s by (auto simp: pattern_at_def)
    next
      case False
      then obtain rest where p: "strip_prefix '' seconds'' (dropWhile is_digit r) = Some rest"
        and g: "g = takeWhile is_digit r"
        using assms r Cons by (auto simp: match_here_def Let_def split: if_splits)
      have "r = g @ '' seconds'' @ rest"
        using td strip_prefix_Some [OF p] g by simp
      moreover have "group_form g"
        unfolding group_form_def using ne dg g
        by (intro exI [of _ "takeWhile is_digit r"] exI [of _ "[]"]) auto
      ultimately show ?thesis using s by (auto simp: pattern_at_def)
    qed
  qed
qed

lemma match_here_iff: "match_here s = Some g \<longleftrightarrow> pattern_at s g"
  using match_here_sound match_here_complete by blast

lemma match_here_None_iff: "match_here s = None \<longleftrightarrow> (\<forall>g. \<not> pattern_at s g)"
  using match_here_iff [of s] by (cases "match_here s") auto

lemma not_pattern_at_Nil: "\<not> pattern_at [] g"
  by (simp add: pattern_at_def)

lemma match_detail_Some_iff: "match_detail d = Some g \<longleftrightarrow> leftmost_match d g"
proof (induction d)
  case Nil
  then show ?case by (simp add: leftmost_match_def not_pattern_at_Nil)
next
  case (Cons c cs)
  show ?case
  proof (cases "match_here (c # cs)")
    case (Some g0)
    then have here: "pattern_at (c # cs) g0" by (simp add: match_here_iff)
    have "leftmost_match (c # cs) g \<longleftrightarrow> g = g0"
    proof
      assume "leftmost_match (c # cs) g"
      then obtain i where i: "pattern_at (drop i (c # cs)) g"
        and least: "\<forall>j<i. \<forall>g'. \<not> pattern_at (drop j (c # cs)) g'"
        by (auto simp: leftmost_match_def)
      have "i = 0" using least here by (cases i) auto
      then have "match_here (c # cs) = Some g" using i by (simp add: match_here_iff)
      then show "g = g0" using Some by simp
    next
      assume "g = g0"
      then have "pattern_at (drop 0 (c # cs)) g" using here by simp
      then show "leftmost_match (c # cs) g" unfolding leftmost_match_def by blast
    qed
    then show ?thesis using Some by auto
  next
    case None
    then have none: "\<And>g'. \<not> pattern_at (c # cs) g'" by (simp add: match_here_None_iff)
    have "leftmost_match (c # cs) g \<longleftrightarrow> leftmost_match cs g"
    proof
      assume "leftmost_match (c # cs) g"
      then obtain i where i: "pattern_at (drop i (c # cs)) g"
        and least: "\<forall>j<i. \<forall>g'. \<not> pattern_at (drop j (c # cs)) g'"
        by (auto simp: leftmost_match_def)
      obtain i' where i': "i = Suc i'" using i none by (cases i) auto
      have "pattern_at (drop i' cs) g" using i i' by simp
      moreover have "\<forall>j<i'. \<forall>g'. \<not> pattern_at (drop j cs) g'"
      proof (intro allI impI)
        fix j g' assume "j < i'"
        then have "Suc j < i" using i' by simp
        then have "\<not> pattern_at (drop (Suc j) (c # cs)) g'" using least by blast
        then show "\<not> pattern_at (drop j cs) g'" by simp
      qed
      ultimately show "leftmost_match cs g" unfolding leftmost_match_def by blast
    next
      assume "leftmost_match cs g"
      then obtain i where i: "pattern_at (drop i cs) g"
        and least: "\<forall>j<i. \<forall>g'. \<not> pattern_at (drop j cs) g'"
        by (auto simp: leftmost_match_def)
      have "pattern_at (drop (Suc i) (c # cs)) g" using i by simp
      moreover have "\<forall>j<Suc i. \<forall>g'. \<not> pattern_at (drop j (c # cs)) g'"
      proof (intro allI impI)
        fix j g' assume j: "j < Suc i"
        show "\<not> pattern_at (drop j (c # cs)) g'"
        proof (cases j)
          case 0
          then show ?thesis using none by simp
        next
          case (Suc j')
          then show ?thesis using j least by simp
        qed
      qed
      ultimately show "leftmost_match (c # cs) g" unfolding leftmost_match_def by blast
    qed
    then show ?thesis using None Cons.IH by simp
  qed
qed

lemma leftmost_match_exists:
  assumes "pattern_at (drop i d) g"
  shows "\<exists>g'. leftmost_match d g'"
proof -
  let ?P = "\<lambda>k. \<exists>g'. pattern_at (drop k d) g'"
  have "?P i" using assms by blast
  then have l: "?P (LEAST k. ?P k)" by (rule LeastI)
  then obtain g' where g': "pattern_at (drop (LEAST k. ?P k) d) g'" by blast
  have "\<forall>j<(LEAST k. ?P k). \<forall>g''. \<not> pattern_at (drop j d) g''"
    using not_less_Least by blast
  then show ?thesis using g' unfolding leftmost_match_def by blast
qed

lemma match_detail_None_iff: "match_detail d = None \<longleftrightarrow> no_match d"
proof
  assume n: "match_detail d = None"
  show "no_match d"
    unfolding no_match_def
  proof (intro allI notI)
    fix i g assume "pattern_at (drop i d) g"
    then obtain g' where "leftmost_match d g'" using leftmost_match_exists by blast
    then show False using n by (simp flip: match_detail_Some_iff)
  qed
next
  assume "no_match d"
  then have "\<And>g. \<not> leftmost_match d g" by (auto simp: no_match_def leftmost_match_def)
  then show "match_detail d = None"
    using match_detail_Some_iff [of d] by (cases "match_detail d") auto
qed

subsection \<open>The wait time of a 429 response\<close>

lemma wait_429_detail:
  assumes "detail r = DetailString d" and "leftmost_match d g"
  shows "wait_429 a r = Inr (times1000 (parseFloat g))"
proof -
  have m: "match_detail d = Some g" using assms(2) by (simp add: match_detail_Some_iff)
  then have "d \<noteq> []" by (cases d) auto
  then show ?thesis using assms(1) m by (simp add: wait_429_def)
qed

lemma wait_429_header:
  assumes "\<not> detail_truthy (detail r)" and "retry_after r = Some h" and "h \<noteq> []"
  shows "wait_429 a r = Inr (times1000 (parseInt h))"
  using assms by (simp add: wait_429_def truthy_def)

text \<open>The number a group denotes, from its parts.\<close>

lemma decimal_value_parts:
  assumes "\<forall>c \<in> set d1. is_digit c" and "\<forall>c \<in> set d2. is_digit c"
  shows "decimal_value d1 = of_nat (decimal d1)"
    and "decimal_value (d1 @ ''.'' @ d2) = of_nat (decimal d1) + of_nat (decimal d2) / 10 ^ length d2"
proof -
  have t1: "takeWhile is_digit d1 = d1" "dropWhile is_digit d1 = []"
    using assms(1) by (simp_all add: takeWhile_eq_all_conv)
  show "decimal_value d1 = of_nat (decimal d1)"
    by (simp add: decimal_value_def t1 decimal_def)
  have t: "takeWhile is_digit (d1 @ CHR ''.'' # d2) = d1"
    using assms(1) not_digit_dot by (rule takeWhile_run)
  have d: "dropWhile is_digit (d1 @ CHR ''.'' # d2) = CHR ''.'' # d2"
    using assms(1) not_digit_dot by (rule dropWhile_run)
  have t2: "takeWhile is_digit d2 = d2" using assms(2) by (simp add: takeWhile_eq_all_conv)
  show "decimal_value (d1 @ ''.'' @ d2) = of_nat (decimal d1) + of_nat (decimal d2) / 10 ^ length d2"
    by (simp add: decimal_value_def t d t2)
qed

lemma times1000_nat_exact:
  assumes "n * 1000 < 2 ^ 53"
  shows "times1000 (double_of (of_nat n)) = Num (of_nat n * 1000)"
proof -
  have "n < 2 ^ 53" using assms by simp
  then have "double_of (of_nat n) = Num (of_nat n)" by (rule double_of_nat_exact)
  moreover have "double_of (of_nat (n * 1000)) = Num (of_nat (n * 1000))"
    using assms by (rule double_of_nat_exact)
  ultimately show ?thesis by (simp add: times1000_def)
qed


lemma md1: "match_detail ''Rate limited, try again after 2.5 seconds'' = Some ''2.5''"
  by code_simp

lemma md2: "match_detail ''slow down'' = None"
  by code_simp

lemma md3: "match_detail ''try again after 1.001 seconds'' = Some ''1.001''"
  by code_simp

lemma dv1: "decimal_value ''2.5'' = 5 / 2"
  by code_simp

lemma dv2: "decimal_value ''1.001'' = 1001 / 1000"
  by code_simp

lemma dec5: "decimal ''5'' = 5"
  by code_simp

lemma double_5_2: "double_of (5 / 2) = Num (5 / 2)"
  using double_of_dyadic [of 5 "- 1"] by simp

lemma double_2500: "double_of 2500 = Num 2500"
  using double_of_nat_exact [of 2500] by simp

text \<open>\<^verbatim>\<open>parseFloat("1.001")\<close> and its product with 1000, which is \<^verbatim>\<open>1000.9999999999999\<close>.\<close>

lemma double_1001: "double_of (1001 / 1000) = Num (2254051613498933 / 2251799813685248)"
proof -
  have r: "round_half_even ((1001 / 1000) / 2 powi (- 52)) = 4508103226997866"
    by (rule round_half_even_near) simp
  show ?thesis
    using double_pos_cert [of 0 "1001 / 1000" "- 52", OF _ _ _ r]
    by (simp add: double_of_def)
qed

lemma times1000_1001:
  "times1000 (Num (2254051613498933 / 2251799813685248)) = Num (8804889115230207 / 8796093022208)"
proof -
  have r: "round_half_even ((2254051613498933 / 2251799813685248 * 1000) / 2 powi (- 43))
           = 8804889115230207"
    by (rule round_half_even_near) simp
  show ?thesis
    using double_pos_cert [of 9 "2254051613498933 / 2251799813685248 * 1000" "- 43", OF _ _ _ r]
    by (simp add: double_of_def times1000_def)
qed

text \<open>\<^verbatim>\<open>parseInt("9007199254740993")\<close> is \<^verbatim>\<open>9007199254740992\<close>: a tie, rounded to even.\<close>

lemma double_2_53_1: "double_of 9007199254740993 = Num 9007199254740992"
proof -
  have r: "round_half_even (9007199254740993 / 2 powi 1) = 4503599627370496"
    using round_half_even_tie [of "9007199254740993 / 2" 4503599627370496] by simp
  show ?thesis
    using double_pos_cert [of 53 9007199254740993 1, OF _ _ _ r]
    by (simp add: double_of_def)
qed

lemma double_of_overflow: "2 powi 1024 \<le> x \<Longrightarrow> double_of x = PosInf"
  using double_pos_overflow [of x] zero_less_power_int [of "2::rat" 1024]
  by (simp add: double_of_def del: zero_less_power_int power_int_numeral)

text \<open>A product with 1000 beyond the largest double is \<^verbatim>\<open>Infinity\<close>.\<close>

lemma times1000_overflow: "2 powi 1024 \<le> v * 1000 \<Longrightarrow> times1000 (Num v) = PosInf"
  by (simp add: times1000_def double_of_overflow del: power_int_numeral)

lemma double_of_1e309: "double_of (10 ^ 309) = PosInf"
  by (rule double_of_overflow) simp

text \<open>\<^verbatim>\<open>1e306\<close> is a finite double; its product with 1000 is not.\<close>

lemma double_of_1e306: "double_of (10 ^ 306) = Num (6413338752028713 * 2 ^ 964)"
proof -
  have r: "round_half_even (10 ^ 306 / 2 powi 964) = 6413338752028713"
    by (rule round_half_even_near) simp
  show ?thesis
    using double_pos_cert [of 1016 "10 ^ 306" 964, OF _ _ _ r]
    by (simp add: double_of_def)
qed

lemma times1000_1e306: "times1000 (double_of (10 ^ 306)) = PosInf"
  unfolding double_of_1e306 by (rule times1000_overflow) simp

lemma parseInt_5: "parseInt ''5'' = Num 5"
proof -
  have "parseInt ''5'' = double_of (of_nat (decimal ''5''))"
    by (rule parseInt_digits) (simp_all add: is_digit_def)
  then show ?thesis using double_of_nat_exact [of 5] by (simp add: dec5)
qed

lemma times1000_parseInt_5: "times1000 (parseInt ''5'') = Num 5000"
  using double_of_nat_exact [of 5000] by (simp add: parseInt_5 times1000_def)



subsection \<open>One attempt and one turn of the loop\<close>

declare fetch_loop.simps [simp del]

lemma try_body_invalid: "invalid_address a \<Longrightarrow> try_body e a k w = (Inl InvalidAddress, w)"
  by (simp add: try_body_def)

lemma fst_try_body:
  "fst (try_body e a k w) =
     (if invalid_address a then Inl InvalidAddress
      else (case respond e k of Failed err \<Rightarrow> Inl (AxiosErr err) | Responded b \<Rightarrow> unwrap a b))"
  by (simp add: try_body_def post_def split: outcome.splits)

lemma snd_try_body:
  "\<not> invalid_address a \<Longrightarrow>
   snd (try_body e a k w) = snd (post e k (acquire e w))"
  by (simp add: try_body_def post_def split: outcome.splits)

lemma retry_trace_log:
  "retry_trace (trace (log ev w)) = retry_trace (trace w) @ (if retry_event ev then [ev] else [])"
  by (simp add: log_def retry_trace_def)

lemma trace_checkRateLimit: "trace (snd (checkRateLimit w)) = trace w"
  by (simp add: checkRateLimit_cases)

lemma retry_trace_acquire: "retry_trace (trace (acquire e w)) = retry_trace (trace w)"
  by (simp add: acquire_def checkRateLimit_cases sleep_def Let_def retry_trace_log)

lemma retry_trace_try_body:
  "\<not> invalid_address a \<Longrightarrow>
   retry_trace (trace (snd (try_body e a k w))) = retry_trace (trace w) @ [Post k]"
  by (simp add: snd_try_body post_def retry_trace_log retry_trace_acquire)

lemma retry_trace_sleep:
  "retry_trace (trace (sleep e BackoffWait ms w)) = retry_trace (trace w) @ [Slept BackoffWait ms]"
  by (simp add: sleep_def retry_trace_log)

lemma loop_return:
  "int k \<le> m \<Longrightarrow> try_body e a k w = (Inr res, w1) \<Longrightarrow>
   fetch_loop e a m k le w = (Inr res, w1)"
  by (subst fetch_loop.simps) simp

lemma loop_retry:
  "int k \<le> m \<Longrightarrow> try_body e a k w = (Inl err, w1) \<Longrightarrow> on_error m k err = Retry ms \<Longrightarrow>
   fetch_loop e a m k le w = fetch_loop e a m (Suc k) (Some err) (sleep e BackoffWait ms w1)"
  by (subst fetch_loop.simps) simp

lemma loop_break:
  "int k \<le> m \<Longrightarrow> try_body e a k w = (Inl err, w1) \<Longrightarrow> on_error m k err = Break \<Longrightarrow>
   fetch_loop e a m k le w = (Inl (FailedToFetch a (Some err)), w1)"
  by (subst fetch_loop.simps) simp

lemma loop_throw:
  "int k \<le> m \<Longrightarrow> try_body e a k w = (Inl err, w1) \<Longrightarrow> on_error m k err = Throw x \<Longrightarrow>
   fetch_loop e a m k le w = (Inl x, w1)"
  by (subst fetch_loop.simps) simp

lemma loop_exit:
  "\<not> int k \<le> m \<Longrightarrow> fetch_loop e a m k le w = (Inl (FailedToFetch a le), w)"
  by (subst fetch_loop.simps) simp

lemma try_body_failed:
  "\<not> invalid_address a \<Longrightarrow> respond e k = Failed ae \<Longrightarrow>
   try_body e a k w = (Inl (AxiosErr ae), snd (try_body e a k w))"
  using fst_try_body [of e a k w] by (simp add: prod_eq_iff)

lemma try_body_responded:
  "\<not> invalid_address a \<Longrightarrow> respond e k = Responded b \<Longrightarrow>
   try_body e a k w = (unwrap a b, snd (try_body e a k w))"
  using fst_try_body [of e a k w] by (simp add: prod_eq_iff)

lemma edges_of_envelope: "edges_of (envelope es) = es"
  by (simp add: edges_of_def envelope_def)

lemma unwrap_envelope_uri:
  "unwrap a (envelope (Some (edge_with_uri u # rest))) =
     (if truthy u then Inr (Some \<lparr>downloadableUri = the u, address = a\<rparr>) else Inr None)"
  by (simp add: unwrap_def edges_of_envelope edge_with_uri_def uri_of_def)

lemma unwrap_result:
  "unwrap a b = Inr (Some art) \<Longrightarrow> downloadableUri art \<noteq> [] \<and> address art = a"
  by (auto simp: unwrap_def truthy_def split: option.splits list.splits if_splits)

lemma unwrap_no_edges:
  "edges_of b = None \<or> edges_of b = Some [] \<Longrightarrow> unwrap a b = Inr None"
  by (auto simp: unwrap_def)

lemma unwrap_no_leaf:
  "edges_of b = Some (Some (Edge (Some n)) # rest) \<Longrightarrow> \<not> truthy (uri_of n) \<Longrightarrow> unwrap a b = Inr None"
  by (simp add: unwrap_def)

lemma unwrap_no_node:
  "edges_of b = Some (Some (Edge None) # rest) \<Longrightarrow> unwrap a b = Inl TypeErr"
  by (simp add: unwrap_def)

lemma on_error_403:
  "response ae = Some r \<Longrightarrow> status r = 403 \<Longrightarrow>
   on_error m k (AxiosErr ae) = (if int k < m then Retry (Num (2 ^ k * 2000)) else Break)"
  by (simp add: on_error_def backoff_def)

lemma on_error_500:
  "response ae = Some r \<Longrightarrow> status r = 500 \<Longrightarrow>
   on_error m k (AxiosErr ae) = (if int k < m then Retry (Num (2 ^ k * 1000)) else Break)"
  by (simp add: on_error_def backoff_def)

lemma loop_500_retry:
  assumes "\<not> invalid_address a" "respond e k = Failed ae" "response ae = Some r" "status r = 500"
    "int k < m"
  shows "fetch_loop e a m k le w =
         fetch_loop e a m (Suc k) (Some (AxiosErr ae))
           (sleep e BackoffWait (Num (2 ^ k * 1000)) (snd (try_body e a k w)))"
  using assms loop_retry [OF _ try_body_failed [OF assms(1,2)], of m "Num (2 ^ k * 1000)" le w]
  by (simp add: on_error_500)

lemma loop_500_last:
  assumes "\<not> invalid_address a" "respond e k = Failed ae" "response ae = Some r" "status r = 500"
    "int k = m"
  shows "fetch_loop e a m k le w = (Inl (FailedToFetch a (Some (AxiosErr ae))), snd (try_body e a k w))"
  using assms loop_break [OF _ try_body_failed [OF assms(1,2)], of m le w]
  by (simp add: on_error_500)

lemma wait_429_Inl_iff:
  "wait_429 k r = Inl ex \<longleftrightarrow> detail r = DetailOther \<and> ex = HandlerTypeError"
  by (cases "detail r") (auto simp: wait_429_def Let_def split: option.splits)

lemma on_error_Retry:
  assumes "on_error m k (AxiosErr ae) = Retry ms"
  shows "retryable ae \<and> \<not> malformed_429 ae \<and> int k < m"
proof (cases "response ae")
  case None
  then show ?thesis
    using assms by (auto simp: on_error_def retryable_def malformed_429_def split: if_splits)
next
  case (Some r)
  show ?thesis
  proof (cases "status r = 429")
    case True
    then obtain w where w: "wait_429 k r = Inr w" and "int k < m"
      using assms Some by (auto simp: on_error_def split: sum.splits if_splits)
    then have "detail r \<noteq> DetailOther"
      using wait_429_Inl_iff [of k r HandlerTypeError] by auto
    then show ?thesis
      using True Some \<open>int k < m\<close> by (simp add: retryable_def malformed_429_def)
  next
    case False
    then show ?thesis
      using assms Some
      by (auto simp: on_error_def retryable_def malformed_429_def split: if_splits)
  qed
qed

lemma on_error_retryable:
  assumes "retryable ae" and "\<not> malformed_429 ae" and "int k < m"
  shows "\<exists>ms. on_error m k (AxiosErr ae) = Retry ms"
proof (cases "response ae")
  case None
  then show ?thesis using assms by (auto simp: on_error_def retryable_def)
next
  case (Some r)
  show ?thesis
  proof (cases "status r = 429")
    case True
    then have "detail r \<noteq> DetailOther" using assms(2) Some by (simp add: malformed_429_def)
    then obtain w where "wait_429 k r = Inr w"
      using wait_429_Inl_iff [of k r] by (cases "wait_429 k r") auto
    then show ?thesis using True Some assms(3) by (simp add: on_error_def)
  next
    case False
    then show ?thesis using assms Some by (auto simp: on_error_def retryable_def)
  qed
qed

lemma on_error_Throw:
  assumes "on_error m k (AxiosErr ae) = Throw x"
  shows "x = terminal_error a m ae \<and> (int k = m \<or> m < int k \<or> malformed_429 ae)"
proof -
  obtain r where r: "response ae = Some r" "status r = 429"
    using assms by (auto simp: on_error_def split: option.splits if_splits)
  show ?thesis
  proof (cases "wait_429 k r")
    case (Inl ex)
    then have "detail r = DetailOther" "ex = HandlerTypeError"
      using wait_429_Inl_iff by auto
    then show ?thesis
      using assms r Inl by (simp add: on_error_def terminal_error_def malformed_429_def)
  next
    case (Inr w)
    then have "detail r \<noteq> DetailOther" using wait_429_Inl_iff [of k r HandlerTypeError] by auto
    then show ?thesis
      using assms r Inr
      by (auto simp: on_error_def terminal_error_def malformed_429_def split: if_splits)
  qed
qed

lemma on_error_Break:
  assumes "on_error m k (AxiosErr ae) = Break"
  shows "FailedToFetch a (Some (AxiosErr ae)) = terminal_error a m ae
       \<and> (int k = m \<or> m < int k \<or> \<not> retryable ae)"
  using assms
  by (auto simp: on_error_def terminal_error_def malformed_429_def retryable_def
           split: option.splits if_splits sum.splits)

lemma on_error_TypeErr: "on_error m k TypeErr = Break"
  by (simp add: on_error_def)

lemma unwrap_error: "unwrap a b = Inl err \<Longrightarrow> err = TypeErr"
  by (auto simp: unwrap_def split: option.splits list.splits if_splits)

lemma loop_rejects:
  "fetch_loop e a m k le w = (Inl x, w') \<Longrightarrow> \<not> invalid_address a \<Longrightarrow> int k \<le> m \<Longrightarrow>
   \<exists>j\<ge>k. int j \<le> m
     \<and> (\<forall>i. k \<le> i \<and> i < j \<longrightarrow>
           (\<exists>ae. respond e i = Failed ae \<and> retryable ae \<and> \<not> malformed_429 ae))
     \<and> (case respond e j of
           Failed ae \<Rightarrow>
             (int j = m \<or> \<not> retryable ae \<or> malformed_429 ae) \<and> x = terminal_error a m ae
         | Responded b \<Rightarrow> unwrap a b = Inl TypeErr \<and> x = FailedToFetch a (Some TypeErr))"
proof (induction e a m k le w rule: fetch_loop.induct)
  case (1 e a m k le w)
  note valid = \<open>\<not> invalid_address a\<close> and le = \<open>int k \<le> m\<close>
  obtain res w1 where tb: "try_body e a k w = (res, w1)" by (cases "try_body e a k w")
  have res: "res = (case respond e k of Failed err \<Rightarrow> Inl (AxiosErr err)
                                      | Responded b \<Rightarrow> unwrap a b)"
    using fst_try_body [of e a k w] tb valid by simp
  let ?goal = "\<lambda>j. k \<le> j \<and> int j \<le> m
     \<and> (\<forall>i. k \<le> i \<and> i < j \<longrightarrow>
           (\<exists>ae. respond e i = Failed ae \<and> retryable ae \<and> \<not> malformed_429 ae))
     \<and> (case respond e j of
           Failed ae \<Rightarrow>
             (int j = m \<or> \<not> retryable ae \<or> malformed_429 ae) \<and> x = terminal_error a m ae
         | Responded b \<Rightarrow> unwrap a b = Inl TypeErr \<and> x = FailedToFetch a (Some TypeErr))"
  have "\<exists>j. ?goal j"
  proof (cases res)
    case (Inr v)
    then show ?thesis using "1.prems"(1) le tb by (simp add: loop_return)
  next
    case (Inl err)
    show ?thesis
    proof (cases "respond e k")
      case (Responded b)
      then have u: "unwrap a b = Inl err" using res Inl by simp
      then have err: "err = TypeErr" by (rule unwrap_error)
      then have "fetch_loop e a m k le w = (Inl (FailedToFetch a (Some TypeErr)), w1)"
        using le tb Inl by (simp add: loop_break on_error_TypeErr)
      then have "x = FailedToFetch a (Some TypeErr)" using "1.prems"(1) by simp
      then have "?goal k" using le Responded u err by auto
      then show ?thesis ..
    next
      case (Failed ae)
      then have err: "err = AxiosErr ae" using res Inl by simp
      show ?thesis
      proof (cases "on_error m k err")
        case (Retry ms)
        then have r: "retryable ae \<and> \<not> malformed_429 ae \<and> int k < m"
          using err on_error_Retry by blast
        then have lt: "int (Suc k) \<le> m" by simp
        have "fetch_loop e a m k le w =
              fetch_loop e a m (Suc k) (Some err) (sleep e BackoffWait ms w1)"
          using le tb Inl Retry by (simp add: loop_retry)
        then have "fetch_loop e a m (Suc k) (Some err) (sleep e BackoffWait ms w1) = (Inl x, w')"
          using "1.prems"(1) by simp
        from "1.IH" [OF le tb [symmetric] Inl Retry this valid lt]
        obtain j where j: "Suc k \<le> j" "int j \<le> m"
          and before: "\<forall>i. Suc k \<le> i \<and> i < j \<longrightarrow>
             (\<exists>ae. respond e i = Failed ae \<and> retryable ae \<and> \<not> malformed_429 ae)"
          and last: "(case respond e j of
             Failed ae \<Rightarrow>
               (int j = m \<or> \<not> retryable ae \<or> malformed_429 ae) \<and> x = terminal_error a m ae
           | Responded b \<Rightarrow> unwrap a b = Inl TypeErr \<and> x = FailedToFetch a (Some TypeErr))"
          by blast
        have "\<forall>i. k \<le> i \<and> i < j \<longrightarrow>
             (\<exists>ae. respond e i = Failed ae \<and> retryable ae \<and> \<not> malformed_429 ae)"
        proof (intro allI impI)
          fix i assume i: "k \<le> i \<and> i < j"
          show "\<exists>ae. respond e i = Failed ae \<and> retryable ae \<and> \<not> malformed_429 ae"
          proof (cases "i = k")
            case True
            then show ?thesis using Failed r by blast
          next
            case False
            then have "Suc k \<le> i \<and> i < j" using i by simp
            then show ?thesis using before by blast
          qed
        qed
        then have "?goal j" using j last by simp
        then show ?thesis ..
      next
        case (Throw ex)
        then have "fetch_loop e a m k le w = (Inl ex, w1)"
          using le tb Inl by (simp add: loop_throw)
        then have "x = ex" using "1.prems"(1) by simp
        then have "x = terminal_error a m ae \<and> (int k = m \<or> m < int k \<or> malformed_429 ae)"
          using Throw err on_error_Throw by blast
        then have "?goal k" using le Failed by auto
        then show ?thesis ..
      next
        case Break
        then have "fetch_loop e a m k le w = (Inl (FailedToFetch a (Some err)), w1)"
          using le tb Inl by (simp add: loop_break)
        then have "x = FailedToFetch a (Some (AxiosErr ae))" using "1.prems"(1) err by simp
        then have "x = terminal_error a m ae \<and> (int k = m \<or> m < int k \<or> \<not> retryable ae)"
          using Break err on_error_Break [of m k ae a] by simp
        then have "?goal k" using le Failed by auto
        then show ?thesis ..
      qed
    qed
  qed
  then show ?case by blast
qed

lemma fst_loop_indep:
  "fst (fetch_loop e a m k le w) = fst (fetch_loop e a m k le v)"
proof (induction e a m k le w arbitrary: v rule: fetch_loop.induct)
  case (1 e a m k le w)
  show ?case
  proof (cases "int k \<le> m")
    case False
    then show ?thesis by (simp add: loop_exit)
  next
    case True
    obtain res w1 where tb: "try_body e a k w = (res, w1)" by (cases "try_body e a k w")
    obtain res' v1 where tb': "try_body e a k v = (res', v1)" by (cases "try_body e a k v")
    have same: "res' = res"
      using fst_try_body [of e a k w] fst_try_body [of e a k v] tb tb' by simp
    show ?thesis
    proof (cases res)
      case (Inr r)
      then show ?thesis using True tb tb' same by (simp add: loop_return)
    next
      case (Inl err)
      show ?thesis
      proof (cases "on_error m k err")
        case (Retry ms)
        have "fetch_loop e a m k le w =
              fetch_loop e a m (Suc k) (Some err) (sleep e BackoffWait ms w1)"
          using True tb Inl Retry by (simp add: loop_retry)
        moreover have "fetch_loop e a m k le v =
              fetch_loop e a m (Suc k) (Some err) (sleep e BackoffWait ms v1)"
          using True tb' same Inl Retry by (simp add: loop_retry)
        ultimately show ?thesis
          using "1.IH" [OF True tb [symmetric] Inl Retry] by simp
      next
        case (Throw x)
        then show ?thesis using True tb tb' same Inl by (simp add: loop_throw)
      next
        case Break
        then show ?thesis using True tb tb' same Inl by (simp add: loop_break)
      qed
    qed
  qed
qed

lemma trace_acquire_refused:
  assumes "fst (checkRateLimit v) = False"
  shows "\<exists>b2. trace (acquire e v) =
     trace v @ [Gate False,
                Slept QuotaWait (Num (of_int (60000 - (clock v - lastRequestTime v)))),
                Gate b2]"
proof -
  have v: "checkRateLimit v = (False, v)"
    using assms by (simp add: checkRateLimit_cases split: if_splits)
  let ?v3 = "sleep e QuotaWait (Num (of_int (60000 - (clock v - lastRequestTime v)))) (log (Gate False) v)"
  have "acquire e v = log (Gate (fst (checkRateLimit ?v3))) (snd (checkRateLimit ?v3))"
    by (simp add: acquire_def v Let_def RATE_LIMIT_WINDOW_def log_def split: prod.splits)
  then have "trace (acquire e v) = trace ?v3 @ [Gate (fst (checkRateLimit ?v3))]"
    by (simp add: log_def trace_checkRateLimit)
  then show ?thesis by (simp add: sleep_def log_def)
qed

lemma loop_result:
  "fetch_loop e a m k le w = (Inr (Some art), w') \<Longrightarrow>
   downloadableUri art \<noteq> [] \<and> address art = a"
proof (induction e a m k le w rule: fetch_loop.induct)
  case (1 e a m k le w)
  show ?case
  proof (cases "int k \<le> m")
    case False
    then show ?thesis using "1.prems" by (simp add: loop_exit)
  next
    case True
    obtain res w1 where tb: "try_body e a k w = (res, w1)" by (cases "try_body e a k w")
    show ?thesis
    proof (cases res)
      case (Inr v)
      then have "fetch_loop e a m k le w = (Inr v, w1)"
        using True tb by (simp add: loop_return)
      then have "v = Some art" using "1.prems" by simp
      moreover have "unwrap a (case respond e k of Responded b \<Rightarrow> b | _ \<Rightarrow> None) = Inr v"
        using fst_try_body [of e a k w] tb Inr
        by (auto split: if_splits outcome.splits)
      ultimately show ?thesis using unwrap_result by blast
    next
      case (Inl err)
      show ?thesis
      proof (cases "on_error m k err")
        case (Retry ms)
        have "fetch_loop e a m k le w =
              fetch_loop e a m (Suc k) (Some err) (sleep e BackoffWait ms w1)"
          using True tb Inl Retry by (simp add: loop_retry)
        then show ?thesis
          using "1.IH" [OF True tb [symmetric] Inl Retry] "1.prems" by simp
      next
        case (Throw x)
        then show ?thesis using True tb Inl "1.prems" by (simp add: loop_throw)
      next
        case Break
        then show ?thesis using True tb Inl "1.prems" by (simp add: loop_break)
      qed
    qed
  qed
qed

lemma sample_run_fst:
  "fst (fetchFirstMintedArtwork
          (answering_server (envelope (Some [edge_with_uri (Some ''ipfs://abc'')])))
          (AString ''0xabc'') default_maxRetries fresh_world)
     = Inr (Some \<lparr>downloadableUri = ''ipfs://abc'', address = AString ''0xabc''\<rparr>)"
  by code_simp

subsection \<open>The fetch\<close>

text \<open>
  C3. With \<^verbatim>\<open>maxRetries\<close> at its default of 3 and a server that answers every request with
  status 500, the fetch issues exactly four requests, of attempts 0 to 3, sleeps 1000, 2000
  and 4000 ms between them (\<open>2 ^ attempt * 1000\<close>), and then rejects with the error that
  carries the address and wraps the failure of the last attempt. The gate's own events are
  left out of \<open>retry_trace\<close>; the result holds whatever the rate-limit state.
\<close>

theorem server_error_four_attempts:
  assumes valid: "\<not> invalid_address a"
    and fails: "\<And>i. i \<le> 3 \<Longrightarrow> respond e i = Failed (err i)"
    and resp: "\<And>i. i \<le> 3 \<Longrightarrow> response (err i) = Some (r i)"
    and st: "\<And>i. i \<le> 3 \<Longrightarrow> status (r i) = 500"
  shows "fst (fetchFirstMintedArtwork e a default_maxRetries w)
           = Inl (FailedToFetch a (Some (AxiosErr (err 3))))
       \<and> retry_trace (trace (snd (fetchFirstMintedArtwork e a default_maxRetries w)))
           = retry_trace (trace w) @
             [Post 0, Slept BackoffWait (Num 1000),
              Post 1, Slept BackoffWait (Num 2000),
              Post 2, Slept BackoffWait (Num 4000),
              Post 3]"
proof -
  define w1 where "w1 = sleep e BackoffWait (Num (2 ^ 0 * 1000)) (snd (try_body e a 0 w))"
  define w2 where "w2 = sleep e BackoffWait (Num (2 ^ 1 * 1000)) (snd (try_body e a 1 w1))"
  define w3 where "w3 = sleep e BackoffWait (Num (2 ^ 2 * 1000)) (snd (try_body e a 2 w2))"
  have s0: "fetch_loop e a 3 0 None w = fetch_loop e a 3 (Suc 0) (Some (AxiosErr (err 0))) w1"
    unfolding w1_def by (rule loop_500_retry [OF valid fails resp st]) simp_all
  have s1: "fetch_loop e a 3 1 (Some (AxiosErr (err 0))) w1
          = fetch_loop e a 3 (Suc 1) (Some (AxiosErr (err 1))) w2"
    unfolding w2_def by (rule loop_500_retry [OF valid fails resp st]) simp_all
  have s2: "fetch_loop e a 3 2 (Some (AxiosErr (err 1))) w2
          = fetch_loop e a 3 (Suc 2) (Some (AxiosErr (err 2))) w3"
    unfolding w3_def by (rule loop_500_retry [OF valid fails resp st]) simp_all
  have s3: "fetch_loop e a 3 3 (Some (AxiosErr (err 2))) w3
          = (Inl (FailedToFetch a (Some (AxiosErr (err 3)))), snd (try_body e a 3 w3))"
    by (rule loop_500_last [OF valid fails resp st]) simp_all
  have run: "fetchFirstMintedArtwork e a default_maxRetries w
          = (Inl (FailedToFetch a (Some (AxiosErr (err 3)))), snd (try_body e a 3 w3))"
    using s0 s1 s2 s3
    by (simp add: fetchFirstMintedArtwork_def default_maxRetries_def numeral_2_eq_2 numeral_3_eq_3)
  have t1: "retry_trace (trace w1) = retry_trace (trace w) @ [Post 0, Slept BackoffWait (Num 1000)]"
    by (simp add: w1_def retry_trace_sleep retry_trace_try_body [OF valid])
  have t2: "retry_trace (trace w2) = retry_trace (trace w1) @ [Post 1, Slept BackoffWait (Num 2000)]"
    by (simp add: w2_def retry_trace_sleep retry_trace_try_body [OF valid])
  have t3: "retry_trace (trace w3) = retry_trace (trace w2) @ [Post 2, Slept BackoffWait (Num 4000)]"
    by (simp add: w3_def retry_trace_sleep retry_trace_try_body [OF valid])
  show ?thesis
    by (simp add: run retry_trace_try_body [OF valid] t1 t2 t3)
qed

theorem server_error_four_attempts_witness:
  "fst (fetchFirstMintedArtwork (failing_server 500) (AString ''0xabc'') default_maxRetries exhausted_world)
     = Inl (FailedToFetch (AString ''0xabc'') (Some (AxiosErr (http_error 500))))
   \<and> retry_trace (trace (snd (fetchFirstMintedArtwork (failing_server 500) (AString ''0xabc'')
        default_maxRetries exhausted_world)))
     = [Post 0, Slept BackoffWait (Num 1000), Post 1, Slept BackoffWait (Num 2000),
        Post 2, Slept BackoffWait (Num 4000), Post 3]"
proof -
  have valid: "\<not> invalid_address (AString ''0xabc'')" by simp
  have fails: "\<And>i. i \<le> 3 \<Longrightarrow> respond (failing_server 500) i = Failed (http_error 500)"
    by (simp add: failing_server_def)
  have resp: "\<And>i::nat. i \<le> 3 \<Longrightarrow>
      response (http_error 500) = Some \<lparr>status = 500, detail = DetailAbsent, retry_after = None\<rparr>"
    by (simp add: http_error_def)
  have st: "\<And>i::nat. i \<le> 3 \<Longrightarrow> status \<lparr>status = 500, detail = DetailAbsent, retry_after = None\<rparr> = 500"
    by simp
  have "retry_trace (trace exhausted_world) = []"
    by (simp add: exhausted_world_def retry_trace_def)
  then show ?thesis
    using server_error_four_attempts [of "AString ''0xabc''" "failing_server 500"
        "\<lambda>i. http_error 500" "\<lambda>i. \<lparr>status = 500, detail = DetailAbsent, retry_after = None\<rparr>"
        exhausted_world, OF valid fails resp st]
    by simp
qed

text \<open>
  C4. The claim: a 2xx response whose \<^verbatim>\<open>edges\<close> are absent or empty, or whose first edge
  lacks any link of the chain down to \<^verbatim>\<open>downloadableUri\<close>, gives \<^verbatim>\<open>null\<close> and never an
  error. The code does so for every link but the first edge itself and its \<^verbatim>\<open>node\<close>
  (\<open>unwrap_no_edges\<close>, \<open>unwrap_no_leaf\<close>): \<^verbatim>\<open>firstEdge.node.media\<close> is read without \<^verbatim>\<open>?.\<close>,
  so a first edge with no \<^verbatim>\<open>node\<close> makes the fetch reject with the wrapped TypeError.
\<close>

theorem missing_node_rejects:
  "fst (fetchFirstMintedArtwork (answering_server (envelope (Some [Some (Edge None)])))
          (AString ''0xabc'') default_maxRetries fresh_world)
     = Inl (FailedToFetch (AString ''0xabc'') (Some TypeErr))"
  by code_simp

text \<open>
  C5. For an address that is the empty string or not a string, the fetch rejects at once:
  the state it leaves is the state it found (no request, no call of the gate, no sleep, the
  counters as they were), and the error carries the address. With at least one attempt
  allowed (\<open>0 \<le> maxRetries\<close>) the error wraps \<^verbatim>\<open>Invalid address provided\<close>.
\<close>

theorem invalid_address_rejected:
  assumes "invalid_address a" and "0 \<le> maxRetries"
  shows "fetchFirstMintedArtwork e a maxRetries w
           = (Inl (FailedToFetch a (Some InvalidAddress)), w)
       \<and> snd (fetchFirstMintedArtwork e a m' w) = w
       \<and> (\<exists>c. fst (fetchFirstMintedArtwork e a m' w) = Inl (FailedToFetch a c))"
proof -
  have brk: "\<And>m. on_error m 0 InvalidAddress = Break" by (simp add: on_error_def)
  have run: "\<And>m. 0 \<le> m \<Longrightarrow>
      fetchFirstMintedArtwork e a m w = (Inl (FailedToFetch a (Some InvalidAddress)), w)"
    unfolding fetchFirstMintedArtwork_def
    using assms(1) by (intro loop_break [OF _ _ brk]) (simp_all add: try_body_invalid)
  have "fetchFirstMintedArtwork e a m' w = (Inl (FailedToFetch a (Some InvalidAddress)), w)
      \<or> fetchFirstMintedArtwork e a m' w = (Inl (FailedToFetch a None), w)"
  proof (cases "0 \<le> m'")
    case True
    then show ?thesis using run by simp
  next
    case False
    then show ?thesis by (simp add: fetchFirstMintedArtwork_def loop_exit)
  qed
  then have "snd (fetchFirstMintedArtwork e a m' w) = w
       \<and> (\<exists>c. fst (fetchFirstMintedArtwork e a m' w) = Inl (FailedToFetch a c))"
    by auto
  then show ?thesis using run [OF assms(2)] by simp
qed

theorem invalid_address_rejected_witness:
  "fetchFirstMintedArtwork (answering_server None) (AString []) default_maxRetries fresh_world
     = (Inl (FailedToFetch (AString []) (Some InvalidAddress)), fresh_world)
   \<and> fetchFirstMintedArtwork (answering_server None) ANonString default_maxRetries exhausted_world
     = (Inl (FailedToFetch ANonString (Some InvalidAddress)), exhausted_world)"
  using invalid_address_rejected [of "AString []" default_maxRetries "answering_server None"
      fresh_world]
    invalid_address_rejected [of ANonString default_maxRetries "answering_server None"
      exhausted_world]
  by (simp add: default_maxRetries_def)

text \<open>
  C6. When the first request is answered with an envelope whose first edge carries a
  non-empty \<^verbatim>\<open>downloadableUri\<close> \<open>u\<close> (such as \<^verbatim>\<open>ipfs://abc\<close>), the fetch of a valid address
  returns exactly \<open>u\<close> with the address as it was given, after that one request; and the
  same is returned by whichever attempt of the loop receives such an envelope.
\<close>

theorem first_edge_returned:
  assumes "\<not> invalid_address a" and "0 \<le> maxRetries"
    and "respond e 0 = Responded (envelope (Some (edge_with_uri (Some u) # rest)))"
    and "u \<noteq> []"
    and "int k \<le> maxRetries"
    and "respond e' k = Responded (envelope (Some (edge_with_uri (Some u) # rest')))"
  shows "fst (fetchFirstMintedArtwork e a maxRetries w)
           = Inr (Some \<lparr>downloadableUri = u, address = a\<rparr>)
       \<and> retry_trace (trace (snd (fetchFirstMintedArtwork e a maxRetries w)))
           = retry_trace (trace w) @ [Post 0]
       \<and> fst (fetch_loop e' a maxRetries k le v)
           = Inr (Some \<lparr>downloadableUri = u, address = a\<rparr>)"
proof -
  have "try_body e a 0 w =
          (Inr (Some \<lparr>downloadableUri = u, address = a\<rparr>), snd (try_body e a 0 w))"
    using try_body_responded [OF assms(1,3), of w] assms(4)
    by (simp add: unwrap_envelope_uri truthy_def)
  then have "fetchFirstMintedArtwork e a maxRetries w =
          (Inr (Some \<lparr>downloadableUri = u, address = a\<rparr>), snd (try_body e a 0 w))"
    unfolding fetchFirstMintedArtwork_def using assms(2) by (intro loop_return) simp_all
  then have first: "fst (fetchFirstMintedArtwork e a maxRetries w)
           = Inr (Some \<lparr>downloadableUri = u, address = a\<rparr>)
       \<and> retry_trace (trace (snd (fetchFirstMintedArtwork e a maxRetries w)))
           = retry_trace (trace w) @ [Post 0]"
    by (simp add: retry_trace_try_body [OF assms(1)])
  have "try_body e' a k v =
          (Inr (Some \<lparr>downloadableUri = u, address = a\<rparr>), snd (try_body e' a k v))"
    using try_body_responded [OF assms(1,6), of v] assms(4)
    by (simp add: unwrap_envelope_uri truthy_def)
  then have "fetch_loop e' a maxRetries k le v =
          (Inr (Some \<lparr>downloadableUri = u, address = a\<rparr>), snd (try_body e' a k v))"
    using assms(5) by (intro loop_return) simp_all
  then show ?thesis using first by simp
qed

theorem first_edge_returned_witness:
  "fst (fetchFirstMintedArtwork
          (answering_server (envelope (Some [edge_with_uri (Some ''ipfs://abc'')])))
          (AString ''0xabc'') default_maxRetries fresh_world)
     = Inr (Some \<lparr>downloadableUri = ''ipfs://abc'', address = AString ''0xabc''\<rparr>)"
  using first_edge_returned [of "AString ''0xabc''" default_maxRetries
      "answering_server (envelope (Some [edge_with_uri (Some ''ipfs://abc'')]))"
      "''ipfs://abc''" "[]" 0
      "answering_server (envelope (Some [edge_with_uri (Some ''ipfs://abc'')]))" "[]"
      fresh_world]
  by (simp add: default_maxRetries_def answering_server_def)





text \<open>
  C9. A result that is not \<^verbatim>\<open>null\<close> has a non-empty \<^verbatim>\<open>downloadableUri\<close> (and the address as
  it was given); an envelope whose first edge carries the empty string as its
  \<^verbatim>\<open>downloadableUri\<close> yields \<^verbatim>\<open>null\<close>.
\<close>

theorem returned_uri_nonempty:
  assumes "fetchFirstMintedArtwork e a maxRetries w = (Inr (Some art), w')"
    and "\<not> invalid_address a'" and "0 \<le> m'"
    and "respond e' 0 = Responded (envelope (Some (edge_with_uri (Some []) # rest)))"
  shows "downloadableUri art \<noteq> [] \<and> address art = a
       \<and> fst (fetchFirstMintedArtwork e' a' m' v) = Inr None"
proof -
  have "try_body e' a' 0 v = (Inr None, snd (try_body e' a' 0 v))"
    using try_body_responded [OF assms(2,4), of v]
    by (simp add: unwrap_envelope_uri truthy_def)
  then have "fetchFirstMintedArtwork e' a' m' v = (Inr None, snd (try_body e' a' 0 v))"
    unfolding fetchFirstMintedArtwork_def using assms(3) by (intro loop_return) simp_all
  then show ?thesis
    using loop_result [OF assms(1) [unfolded fetchFirstMintedArtwork_def]] by simp
qed

theorem returned_uri_nonempty_witness:
  "downloadableUri \<lparr>downloadableUri = ''ipfs://abc'', address = AString ''0xabc''\<rparr> \<noteq> []
   \<and> fst (fetchFirstMintedArtwork
          (answering_server (envelope (Some [edge_with_uri (Some [])])))
          (AString ''0xabc'') default_maxRetries exhausted_world) = Inr None"
proof -
  let ?e = "answering_server (envelope (Some [edge_with_uri (Some ''ipfs://abc'')]))"
  let ?e' = "answering_server (envelope (Some [edge_with_uri (Some [])]))"
  have h1: "fetchFirstMintedArtwork ?e (AString ''0xabc'') default_maxRetries fresh_world
      = (Inr (Some \<lparr>downloadableUri = ''ipfs://abc'', address = AString ''0xabc''\<rparr>),
         snd (fetchFirstMintedArtwork ?e (AString ''0xabc'') default_maxRetries fresh_world))"
    using sample_run_fst by (simp add: prod_eq_iff)
  have h2: "\<not> invalid_address (AString ''0xabc'')" by simp
  have h3: "0 \<le> default_maxRetries" by (simp add: default_maxRetries_def)
  have h4: "respond ?e' 0 = Responded (envelope (Some (edge_with_uri (Some []) # [])))"
    by (simp add: answering_server_def)
  show ?thesis
    using returned_uri_nonempty [OF h1 h2 h3 h4, of exhausted_world] by simp
qed

end
